theory Spec2Isabelle
  imports Main
begin

section \<open>ESPN play-by-play normalisation (\<open>espn.py\<close>)\<close>

text \<open>
  The development embeds the row-normalisation code of \<open>espn.py\<close>: \<open>adjust_game\<close>,
  \<open>_adjust_time\<close>, \<open>_league_time\<close>, \<open>_calc_overall_time\<close> and \<open>_play_as_dict\<close>
  (the leading underscore of the Python names is dropped, since an Isabelle name cannot
  start with one). Network retrieval and HTML parsing are outside: a table row enters
  the model as the results of the \<open>find\<close> calls the code makes on it.

  Python exceptions are values of type \<open>error\<close>; a function that can raise returns
  \<open>error + 'a\<close>, with \<open>Inl\<close> for the exception. Texts are ASCII strings.
\<close>

subsection \<open>Exceptions\<close>

datatype error = AttributeError | ValueError | IndexError | OverflowError | KeyError

definition ebind :: "error + 'a \<Rightarrow> ('a \<Rightarrow> error + 'b) \<Rightarrow> error + 'b" where
  "ebind r f = (case r of Inl e \<Rightarrow> Inl e | Inr x \<Rightarrow> f x)"

subsection \<open>The library functions the code calls\<close>

text \<open>
  \<open>re.split(':', s)\<close> and \<open>s.split('-')\<close> with a one-character separator: the text is cut
  at every occurrence of the separator, empty pieces included, so the result always has
  at least one element.
\<close>

fun split_on :: "char \<Rightarrow> string \<Rightarrow> string list" where
  "split_on sep [] = [[]]"
| "split_on sep (c # cs) =
     (if c = sep then [] # split_on sep cs
      else (case split_on sep cs of
              [] \<Rightarrow> [[c]]
            | p # ps \<Rightarrow> (c # p) # ps))"

text \<open>
  \<open>int(s)\<close> on a text, base ten: surrounding white space is dropped, one sign is
  allowed, then come decimal digits, where a single underscore may stand between two
  digits. Anything else raises \<open>ValueError\<close>. (The interpreter's configurable cap on
  the number of digits, \<open>sys.int_max_str_digits\<close>, is not part of the model.)
\<close>

definition is_space :: "char \<Rightarrow> bool" where
  "is_space c = (c \<in> set [CHR 0x09, CHR 0x0A, CHR 0x0B, CHR 0x0C, CHR 0x0D, CHR '' ''])"

definition strip :: "string \<Rightarrow> string" where
  "strip s = rev (dropWhile is_space (rev (dropWhile is_space s)))"

definition is_digit :: "char \<Rightarrow> bool" where
  "is_digit c = (c \<in> set ''0123456789'')"

definition digit_val :: "char \<Rightarrow> int" where
  "digit_val c = int (of_char c) - 48"

fun int_digits :: "int \<Rightarrow> string \<Rightarrow> int option" where
  "int_digits acc [] = Some acc"
| "int_digits acc (c # cs) =
     (if is_digit c then int_digits (10 * acc + digit_val c) cs
      else if c = CHR ''_'' then
        (case cs of
           [] \<Rightarrow> None
         | d # ds \<Rightarrow> if is_digit d then int_digits (10 * acc + digit_val d) ds else None)
      else None)"

definition py_int :: "string \<Rightarrow> error + int" where
  "py_int s =
     (let t = strip s;
          neg = (case t of [] \<Rightarrow> False | c # _ \<Rightarrow> c = CHR ''-'');
          u = (case t of [] \<Rightarrow> [] | c # cs \<Rightarrow> if c = CHR ''-'' \<or> c = CHR ''+'' then cs else t)
      in case u of
           [] \<Rightarrow> Inl ValueError
         | c # cs \<Rightarrow>
             if is_digit c then
               (case int_digits (digit_val c) cs of
                  None \<Rightarrow> Inl ValueError
                | Some n \<Rightarrow> Inr (if neg then - n else n))
             else Inl ValueError)"

text \<open>\<open>s.upper()\<close> on an ASCII text.\<close>

definition upper_char :: "char \<Rightarrow> char" where
  "upper_char c =
     (let n = (of_char c :: nat) in if 97 \<le> n \<and> n \<le> 122 then char_of (n - 32) else c)"

definition upper :: "string \<Rightarrow> string" where
  "upper s = map upper_char s"

subsection \<open>\<open>datetime.timedelta\<close>\<close>

text \<open>
  A \<open>timedelta\<close> built from integers holds a number of days and a number of seconds
  with \<open>0 \<le> seconds < 86400\<close> (its microseconds stay \<open>0\<close> here). The constructor
  normalises with floor division and raises \<open>OverflowError\<close> when the magnitude of the
  days exceeds \<open>999999999\<close>; addition and subtraction go through the constructor.
\<close>

record timedelta =
  td_days :: int
  td_seconds :: int

definition new_timedelta :: "int \<Rightarrow> int \<Rightarrow> int \<Rightarrow> error + timedelta" where
  "new_timedelta d s m =
     (let secs = s + m * 60;
          d' = d + secs div 86400;
          s' = secs mod 86400
      in if \<bar>d'\<bar> > 999999999 then Inl OverflowError
         else Inr \<lparr>td_days = d', td_seconds = s'\<rparr>)"

definition td_add :: "timedelta \<Rightarrow> timedelta \<Rightarrow> error + timedelta" where
  "td_add a b = new_timedelta (td_days a + td_days b) (td_seconds a + td_seconds b) 0"

definition td_sub :: "timedelta \<Rightarrow> timedelta \<Rightarrow> error + timedelta" where
  "td_sub a b = new_timedelta (td_days a - td_days b) (td_seconds a - td_seconds b) 0"

text \<open>The length of a \<open>timedelta\<close> in seconds; Python orders timedeltas by it.\<close>

definition total_seconds :: "timedelta \<Rightarrow> int" where
  "total_seconds t = td_days t * 86400 + td_seconds t"

text \<open>\<open>"%d" % n\<close> and \<open>"%02d" % n\<close>.\<close>

fun dec_nat :: "nat \<Rightarrow> string" where
  "dec_nat n =
     (if n < 10 then [''0123456789'' ! n]
      else dec_nat (n div 10) @ [''0123456789'' ! (n mod 10)])"

declare dec_nat.simps [simp del]

definition fmt_d :: "int \<Rightarrow> string" where
  "fmt_d n = (if n < 0 then CHR ''-'' # dec_nat (nat (- n)) else dec_nat (nat n))"

definition fmt_02d :: "int \<Rightarrow> string" where
  "fmt_02d n = (let s = fmt_d n in if length s < 2 then CHR ''0'' # s else s)"

text \<open>\<open>str(t)\<close>: \<open>H:MM:SS\<close>, after \<open>N day, \<close> or \<open>N days, \<close> when the days are not \<open>0\<close>.\<close>

definition str_timedelta :: "timedelta \<Rightarrow> string" where
  "str_timedelta t =
     (let mm = td_seconds t div 60;
          ss = td_seconds t mod 60;
          hh = mm div 60;
          mm = mm mod 60;
          s = fmt_d hh @ '':'' @ fmt_02d mm @ '':'' @ fmt_02d ss
      in if td_days t \<noteq> 0
         then fmt_d (td_days t) @ '' day'' @ (if \<bar>td_days t\<bar> \<noteq> 1 then ''s'' else '''') @ '', '' @ s
         else s)"

subsection \<open>The game clock: \<open>_league_time\<close> and \<open>_calc_overall_time\<close>\<close>

definition league_time :: "string \<Rightarrow> int \<times> int \<times> int" where
  "league_time league = (if league = ''nba'' then (4, 48, 12) else (2, 40, 20))"

text \<open>
  \<open>overall_timedelta\<close> is the value \<open>mins + previous_time\<close> of \<open>_calc_overall_time\<close>,
  which the function returns as a text.
\<close>

definition overall_timedelta :: "int \<Rightarrow> int \<Rightarrow> int \<Rightarrow> string \<Rightarrow> error + timedelta" where
  "overall_timedelta seconds minutes quarter league =
     (case league_time league of (num_quarters, regulation_time, regular_quarter) \<Rightarrow>
        (case (if quarter \<ge> num_quarters
               then (5, regulation_time + 5 * ((quarter - num_quarters) - 1))
               else (regular_quarter, regular_quarter * (quarter - 1)))
         of (quarter_length, previous_minutes) \<Rightarrow>
           ebind (new_timedelta 0 0 previous_minutes) (\<lambda>previous_time.
           ebind (new_timedelta 0 0 quarter_length) (\<lambda>a.
           ebind (new_timedelta 0 seconds minutes) (\<lambda>b.
           ebind (td_sub a b) (\<lambda>mins.
           td_add mins previous_time))))))"

definition calc_overall_time :: "int \<Rightarrow> int \<Rightarrow> int \<Rightarrow> string \<Rightarrow> error + string" where
  "calc_overall_time seconds minutes quarter league =
     ebind (overall_timedelta seconds minutes quarter league) (\<lambda>t. Inr (str_timedelta t))"

subsection \<open>Rows, plays and the engine\<close>

text \<open>
  A row of the play-by-play table, as the code reads it:
  \<^item> \<open>time_stamp\<close>: the text of the cell of class \<open>time-stamp\<close>, \<open>None\<close> when the row has
    no such cell;
  \<^item> \<open>logo\<close>: what the regular expression finds in the cell of class \<open>logo\<close> (the team
    identifier between \<open>500/\<close> and \<open>.png\<close>), \<open>None\<close> when it finds nothing;
  \<^item> \<open>game_details\<close>: the text of the cell of class \<open>game-details\<close>, if any;
  \<^item> \<open>no_change\<close>: whether the row has a cell of class \<open>combined-score no-change\<close>;
  \<^item> \<open>combined_score\<close>: the text of the cell of class \<open>combined-score\<close>, if any.
\<close>

record row =
  time_stamp :: "string option"
  logo :: "string option"
  game_details :: "string option"
  no_change :: bool
  combined_score :: "string option"

text \<open>The module's global variables that \<open>parse_plays\<close> sets before it calls \<open>adjust_game\<close>.\<close>

record globals =
  away_team :: string
  home_team :: string

text \<open>A play is a Python dictionary from texts to texts or integers.\<close>

datatype pyval = PStr string | PInt int

type_synonym play = "string \<rightharpoonup> pyval"

definition play_as_dict :: "globals \<Rightarrow> row \<Rightarrow> error + play" where
  "play_as_dict g play =
     (case logo play of
        None \<Rightarrow> Inl AttributeError
      | Some l \<Rightarrow>
          if upper l \<noteq> away_team g then
            (case game_details play of
               None \<Rightarrow> Inl AttributeError
             | Some details \<Rightarrow>
                 Inr [''away_play'' \<mapsto> PStr '''', ''home_play'' \<mapsto> PStr details])
          else
            (case game_details play of
               None \<Rightarrow> Inl AttributeError
             | Some details \<Rightarrow>
                 Inr [''away_play'' \<mapsto> PStr details, ''home_play'' \<mapsto> PStr '''']))"

text \<open>Lines 103 to 105 of \<open>_adjust_time\<close>: the clock text as minutes and seconds.\<close>

definition parse_clock :: "string \<Rightarrow> error + int \<times> int" where
  "parse_clock time =
     (let new_time = split_on CHR '':'' time in
      ebind (case new_time of [] \<Rightarrow> Inl IndexError | x # _ \<Rightarrow> py_int x) (\<lambda>minutes.
      ebind (case new_time of _ # y # _ \<Rightarrow> py_int y | _ \<Rightarrow> Inl IndexError) (\<lambda>seconds.
      Inr (minutes, seconds))))"

text \<open>Lines 106 to 110 of \<open>_adjust_time\<close>: the period and the end-of-period flag.\<close>

definition next_quarter :: "int \<Rightarrow> int \<Rightarrow> bool \<Rightarrow> int \<times> bool" where
  "next_quarter minutes quarter end_of_quarter =
     (if minutes = 0 \<and> \<not> end_of_quarter then (quarter, True)
      else if end_of_quarter \<and> minutes > 1 then (quarter + 1, False)
      else (quarter, end_of_quarter))"

definition adjust_time :: "string \<Rightarrow> int \<Rightarrow> bool \<Rightarrow> string \<Rightarrow> error + play \<times> int \<times> bool" where
  "adjust_time time quarter end_of_quarter league =
     ebind (parse_clock time) (\<lambda>(minutes, seconds).
       case next_quarter minutes quarter end_of_quarter of (quarter', end_of_quarter') \<Rightarrow>
         ebind (calc_overall_time seconds minutes quarter' league) (\<lambda>overall_time.
           Inr ([''overall_time'' \<mapsto> PStr overall_time,
                 ''quarter_time'' \<mapsto> PStr time,
                 ''quarter'' \<mapsto> PInt quarter'],
                quarter', end_of_quarter')))"

text \<open>Lines 90 to 93 of \<open>adjust_game\<close>: the text \<open>away-home\<close> of a score cell.\<close>

definition parse_score :: "string \<Rightarrow> error + int \<times> int" where
  "parse_score scores =
     (case split_on CHR ''-'' scores of
        [away_score, home_score] \<Rightarrow>
          ebind (py_int away_score) (\<lambda>a.
          ebind (py_int home_score) (\<lambda>h. Inr (a, h)))
      | _ \<Rightarrow> Inl ValueError)"

definition lookup :: "play \<Rightarrow> string \<Rightarrow> error + pyval" where
  "lookup d k = (case d k of None \<Rightarrow> Inl KeyError | Some v \<Rightarrow> Inr v)"

text \<open>
  Lines 79 to 93 of \<open>adjust_game\<close>: the two scores that the new play gets, from the last
  play of the list or from the score cell of the row.
\<close>

definition resolve_scores :: "play list \<Rightarrow> row \<Rightarrow> error + pyval \<times> pyval" where
  "resolve_scores gm play =
     (if no_change play then
        (if length gm > 0 then
           ebind (lookup (last gm) ''away_score'') (\<lambda>a.
           ebind (lookup (last gm) ''home_score'') (\<lambda>h. Inr (a, h)))
         else Inr (PInt 0, PInt 0))
      else
        (case combined_score play of
           None \<Rightarrow> Inl AttributeError
         | Some scores \<Rightarrow> ebind (parse_score scores) (\<lambda>(a, h). Inr (PInt a, PInt h))))"

text \<open>The local variables of \<open>adjust_game\<close> that live across the rows.\<close>

record engine =
  game :: "play list"
  quarter :: int
  end_of_quarter :: bool

text \<open>One turn of the loop of \<open>adjust_game\<close>; a row without a time stamp is passed over.\<close>

definition loop_body :: "globals \<Rightarrow> string \<Rightarrow> engine \<Rightarrow> row \<Rightarrow> error + engine" where
  "loop_body g league st play =
     (case time_stamp play of
        None \<Rightarrow> Inr st
      | Some time \<Rightarrow>
          ebind (play_as_dict g play) (\<lambda>new_play.
          ebind (adjust_time time (quarter st) (end_of_quarter st) league)
            (\<lambda>(time_dict, quarter', end_of_quarter').
          ebind (resolve_scores (game st) play) (\<lambda>(a, h).
          Inr \<lparr>game = game st @
                  [(new_play ++ time_dict)(''away_score'' \<mapsto> a, ''home_score'' \<mapsto> h)],
               quarter = quarter', end_of_quarter = end_of_quarter'\<rparr>))))"

fun adjust_loop :: "globals \<Rightarrow> string \<Rightarrow> engine \<Rightarrow> row list \<Rightarrow> error + engine" where
  "adjust_loop g league st [] = Inr st"
| "adjust_loop g league st (play # plays) =
     ebind (loop_body g league st play) (\<lambda>st'. adjust_loop g league st' plays)"

definition adjust_game :: "globals \<Rightarrow> row list \<Rightarrow> string \<Rightarrow> error + play list" where
  "adjust_game g plays league =
     ebind (adjust_loop g league \<lparr>game = [], quarter = 1, end_of_quarter = False\<rparr> plays)
       (\<lambda>st. Inr (game st))"

subsection \<open>Observations on durations and on the output\<close>

text \<open>The normalised \<open>timedelta\<close> of a number of seconds, and when that number is out of range.\<close>

definition td_of_seconds :: "int \<Rightarrow> timedelta" where
  "td_of_seconds n = \<lparr>td_days = n div 86400, td_seconds = n mod 86400\<rparr>"

definition td_overflow :: "int \<Rightarrow> bool" where
  "td_overflow n = (\<bar>n div 86400\<bar> > 999999999)"

text \<open>
  The elapsed time of \<open>_calc_overall_time\<close> in seconds, with unbounded integers in place
  of the \<open>timedelta\<close> arithmetic.
\<close>

definition elapsed_seconds :: "int \<Rightarrow> int \<Rightarrow> int \<Rightarrow> string \<Rightarrow> int" where
  "elapsed_seconds s m q league =
     (case league_time league of (n, reg, regular) \<Rightarrow>
        if q \<ge> n
        then 60 * (reg + 5 * ((q - n) - 1)) + (60 * 5 - (60 * m + s))
        else 60 * (regular * (q - 1)) + (60 * regular - (60 * m + s)))"

text \<open>
  The specification's formula for a period within regulation, in seconds:
  \<open>regular_period_minutes * (period - 1)\<close> plus \<open>regular_period_minutes\<close> minus the
  remaining time.
\<close>

definition regulation_elapsed :: "int \<Rightarrow> int \<Rightarrow> int \<Rightarrow> string \<Rightarrow> int" where
  "regulation_elapsed s m period league =
     (case league_time league of (n, reg, regular) \<Rightarrow>
        60 * (regular * (period - 1)) + (60 * regular - (60 * m + s)))"

text \<open>The values stored under one key, down the list of plays.\<close>

definition column :: "string \<Rightarrow> play list \<Rightarrow> pyval option list" where
  "column k gm = map (\<lambda>p. p k) gm"

text \<open>What \<open>_adjust_time\<close> returns: the entry of its dictionary under a key, and the state.\<close>

definition time_dict_at :: "string \<Rightarrow> error + play \<times> int \<times> bool \<Rightarrow> error + pyval option" where
  "time_dict_at k r = map_sum id (\<lambda>(d, q, e). d k) r"

definition state_after :: "error + play \<times> int \<times> bool \<Rightarrow> error + int \<times> bool" where
  "state_after r = map_sum id snd r"

text \<open>
  The period and the clock of an emitted play, read from its entries \<open>quarter\<close> and
  \<open>quarter_time\<close>, and the elapsed time in seconds that \<open>_calc_overall_time\<close> computes
  from them (the play stores its text under \<open>overall_time\<close>).
\<close>

definition play_clock :: "play \<Rightarrow> (int \<times> int \<times> int) option" where
  "play_clock p =
     (case (p ''quarter'', p ''quarter_time'') of
        (Some (PInt q), Some (PStr t)) \<Rightarrow>
          (case parse_clock t of Inr (m, s) \<Rightarrow> Some (q, m, s) | Inl _ \<Rightarrow> None)
      | _ \<Rightarrow> None)"

definition play_elapsed :: "string \<Rightarrow> play \<Rightarrow> int option" where
  "play_elapsed league p =
     (case play_clock p of
        None \<Rightarrow> None
      | Some (q, m, s) \<Rightarrow>
          (case overall_timedelta s m q league of
             Inl _ \<Rightarrow> None
           | Inr t \<Rightarrow> Some (total_seconds t)))"

text \<open>The elapsed time does not decrease from each play to the next.\<close>

definition elapsed_le :: "string \<Rightarrow> play \<Rightarrow> play \<Rightarrow> bool" where
  "elapsed_le league p1 p2 =
     (case (play_elapsed league p1, play_elapsed league p2) of
        (Some a, Some b) \<Rightarrow> a \<le> b
      | _ \<Rightarrow> False)"

definition elapsed_nondecreasing :: "string \<Rightarrow> play list \<Rightarrow> bool" where
  "elapsed_nondecreasing league gm = successively (elapsed_le league) gm"

text \<open>
  The length in minutes of a period as it is played: a regular period up to the last
  period of regulation, five minutes afterwards.
\<close>

definition period_minutes :: "string \<Rightarrow> int \<Rightarrow> int" where
  "period_minutes league q =
     (case league_time league of (n, reg, regular) \<Rightarrow> if q \<le> n then regular else 5)"

text \<open>
  Clocks that run down, read off the rows alone. Rows without a time stamp do not count.
  Every clock has minutes that are not negative and seconds from \<open>0\<close> to \<open>59\<close>. From a
  clock to the next, either the remaining time does not grow, or a new period starts:
  then the earlier clock shows \<open>0\<close> minutes and the later one more than \<open>1\<close> minute and
  at most the length of the period it starts. \<open>p\<close> counts the periods by these starts,
  \<open>prev\<close> is the clock before, if there was one.
\<close>

fun clocks_normal :: "string \<Rightarrow> int \<Rightarrow> (int \<times> int) option \<Rightarrow> row list \<Rightarrow> bool" where
  "clocks_normal league p prev [] = True"
| "clocks_normal league p prev (r # rs) =
     (case time_stamp r of
        None \<Rightarrow> clocks_normal league p prev rs
      | Some t \<Rightarrow>
          (case parse_clock t of
             Inl _ \<Rightarrow> False
           | Inr (m, s) \<Rightarrow>
               0 \<le> m \<and> 0 \<le> s \<and> s < 60 \<and>
               (case prev of
                  None \<Rightarrow> clocks_normal league p (Some (m, s)) rs
                | Some (m1, s1) \<Rightarrow>
                    if 60 * m + s \<le> 60 * m1 + s1
                    then clocks_normal league p (Some (m, s)) rs
                    else m1 = 0 \<and> 1 < m \<and> 60 * m + s \<le> 60 * period_minutes league (p + 1)
                         \<and> clocks_normal league (p + 1) (Some (m, s)) rs)))"

definition clocks_run_down :: "string \<Rightarrow> row list \<Rightarrow> bool" where
  "clocks_run_down league rows = clocks_normal league 1 None rows"

text \<open>
  The engine in step with the clocks read so far: it is in period \<open>p\<close>; before the first
  clock it has no play and its flag is not set; after a clock \<open>(m1, s1)\<close> its last play
  has the elapsed time of that clock in period \<open>p\<close>, and its flag is set exactly when
  the clock shows \<open>0\<close> minutes.
\<close>

definition in_step :: "string \<Rightarrow> engine \<Rightarrow> int \<Rightarrow> (int \<times> int) option \<Rightarrow> bool" where
  "in_step league st p prev =
     (quarter st = p \<and>
      (case prev of
         None \<Rightarrow> game st = [] \<and> \<not> end_of_quarter st
       | Some (m1, s1) \<Rightarrow>
           game st \<noteq> []
           \<and> play_elapsed league (last (game st)) = Some (elapsed_seconds s1 m1 p league)
           \<and> 0 \<le> m1 \<and> 0 \<le> s1 \<and> s1 < 60
           \<and> (end_of_quarter st \<longleftrightarrow> m1 = 0)))"

text \<open>The number that a text of decimal digits denotes.\<close>

definition dec_value :: "string \<Rightarrow> int" where
  "dec_value ds = foldl (\<lambda>a c. 10 * a + digit_val c) 0 ds"

subsection \<open>Exceptions in sequence\<close>

lemma ebind_Inl [simp]: "ebind (Inl e) f = Inl e"
  by (simp add: ebind_def)

lemma ebind_Inr [simp]: "ebind (Inr x) f = f x"
  by (simp add: ebind_def)

lemma ebind_eq_Inr: "ebind r f = Inr y \<longleftrightarrow> (\<exists>x. r = Inr x \<and> f x = Inr y)"
  by (cases r) simp_all

subsection \<open>Arithmetic of \<open>timedelta\<close>\<close>

lemma total_seconds_td_of_seconds: "total_seconds (td_of_seconds n) = n"
  by (simp add: total_seconds_def td_of_seconds_def)

lemma new_timedelta_eq:
  "new_timedelta d s m =
     (if td_overflow (d * 86400 + s + 60 * m) then Inl OverflowError
      else Inr (td_of_seconds (d * 86400 + s + 60 * m)))"
proof -
  have "(d * 86400 + s + 60 * m) div 86400 = d + (s + m * 60) div 86400"
    by (simp add: algebra_simps)
  moreover have "(d * 86400 + s + 60 * m) mod 86400 = (s + m * 60) mod 86400"
  proof -
    have "d * 86400 + s + 60 * m = (s + m * 60) + d * 86400" by simp
    then show ?thesis by (simp only: mod_mult_self1)
  qed
  ultimately show ?thesis
    by (simp add: new_timedelta_def td_overflow_def td_of_seconds_def Let_def)
qed

lemma td_add_eq:
  "td_add a b =
     (if td_overflow (total_seconds a + total_seconds b) then Inl OverflowError
      else Inr (td_of_seconds (total_seconds a + total_seconds b)))"
  by (simp add: td_add_def new_timedelta_eq total_seconds_def algebra_simps)

lemma td_sub_eq:
  "td_sub a b =
     (if td_overflow (total_seconds a - total_seconds b) then Inl OverflowError
      else Inr (td_of_seconds (total_seconds a - total_seconds b)))"
  by (simp add: td_sub_def new_timedelta_eq total_seconds_def algebra_simps)

lemma no_td_overflow:
  assumes "\<bar>n\<bar> \<le> 10000000000000"
  shows "\<not> td_overflow n"
proof -
  have "n div 86400 \<le> 10000000000000 div 86400"
    and "(- 10000000000000) div 86400 \<le> n div 86400"
    using assms by (auto intro!: zdiv_mono1)
  then show ?thesis unfolding td_overflow_def by simp
qed

subsection \<open>The elapsed time\<close>

lemma overall_timedelta_Inr:
  assumes "overall_timedelta s m q lg = Inr t"
  shows "t = td_of_seconds (elapsed_seconds s m q lg)"
  using assms
  by (auto simp: overall_timedelta_def elapsed_seconds_def ebind_def new_timedelta_eq
      td_add_eq td_sub_eq total_seconds_td_of_seconds league_time_def
      split: if_splits prod.splits sum.splits
      intro!: arg_cong [where f = td_of_seconds])

lemma overall_timedelta_Inl:
  assumes "overall_timedelta s m q lg = Inl e"
  shows "e = OverflowError"
  using assms
  by (auto simp: overall_timedelta_def ebind_def new_timedelta_eq td_add_eq td_sub_eq
      league_time_def split: if_splits prod.splits sum.splits)

lemma overall_timedelta_returns:
  assumes "1 \<le> q" "q \<le> 1000000000" "\<bar>m\<bar> \<le> 1000000000" "\<bar>s\<bar> \<le> 1000000000"
  shows "overall_timedelta s m q lg = Inr (td_of_seconds (elapsed_seconds s m q lg))"
  using assms
  by (auto simp: overall_timedelta_def elapsed_seconds_def ebind_def new_timedelta_eq
      td_add_eq td_sub_eq total_seconds_td_of_seconds league_time_def no_td_overflow
      split: if_splits prod.splits sum.splits
      intro!: arg_cong [where f = td_of_seconds])

lemma calc_overall_time_Inr:
  assumes "calc_overall_time s m q lg = Inr t"
  shows "overall_timedelta s m q lg = Inr (td_of_seconds (elapsed_seconds s m q lg))
         \<and> t = str_timedelta (td_of_seconds (elapsed_seconds s m q lg))"
  using assms overall_timedelta_Inr [of s m q lg]
  by (auto simp: calc_overall_time_def ebind_def split: sum.splits)

lemma calc_overall_time_returns:
  assumes "1 \<le> q" "q \<le> 1000000000" "\<bar>m\<bar> \<le> 1000000000" "\<bar>s\<bar> \<le> 1000000000"
  shows "calc_overall_time s m q lg = Inr (str_timedelta (td_of_seconds (elapsed_seconds s m q lg)))"
  by (simp add: calc_overall_time_def ebind_def overall_timedelta_returns [OF assms])

text \<open>
  C1. For every league and every period \<open>p \<ge> 1\<close>, the elapsed time that
  \<open>_calc_overall_time\<close> computes for the remaining minutes \<open>m\<close> and seconds \<open>s\<close> is the
  text of the duration \<open>previous + (period_length - remaining)\<close>, where within
  regulation (\<open>p < num_quarters\<close>) \<open>previous = regular_quarter * (p - 1)\<close> minutes and
  \<open>period_length = regular_quarter\<close>, and otherwise
  \<open>previous = regulation_time + 5 * ((p - num_quarters) - 1)\<close> minutes and
  \<open>period_length = 5\<close>. The duration is counted in seconds. The function returns nothing
  else: its one failure is the \<open>OverflowError\<close> of \<open>timedelta\<close>, which needs a period,
  minutes or seconds beyond \<open>10^9\<close>.
\<close>

theorem calc_overall_time_elapsed:
  assumes "1 \<le> p"
    and "league_time lg = (n, reg, regular)"
  shows "let previous = (if p < n then regular * (p - 1) else reg + 5 * ((p - n) - 1));
             period_length = (if p < n then regular else 5);
             elapsed = 60 * previous + (60 * period_length - (60 * m + s))
         in (calc_overall_time s m p lg = Inr (str_timedelta (td_of_seconds elapsed))
               \<and> overall_timedelta s m p lg = Inr (td_of_seconds elapsed)
             \<or> calc_overall_time s m p lg = Inl OverflowError)
            \<and> (p \<le> 1000000000 \<and> \<bar>m\<bar> \<le> 1000000000 \<and> \<bar>s\<bar> \<le> 1000000000 \<longrightarrow>
                 calc_overall_time s m p lg = Inr (str_timedelta (td_of_seconds elapsed)))
            \<and> total_seconds (td_of_seconds elapsed) = elapsed"
proof -
  have e: "elapsed_seconds s m p lg =
      60 * (if p < n then regular * (p - 1) else reg + 5 * ((p - n) - 1))
      + (60 * (if p < n then regular else 5) - (60 * m + s))"
    using assms(2) by (simp add: elapsed_seconds_def)
  have A: "calc_overall_time s m p lg
        = Inr (str_timedelta (td_of_seconds (elapsed_seconds s m p lg)))
      \<and> overall_timedelta s m p lg = Inr (td_of_seconds (elapsed_seconds s m p lg))
      \<or> calc_overall_time s m p lg = Inl OverflowError"
  proof (cases "calc_overall_time s m p lg")
    case (Inl err)
    then have "overall_timedelta s m p lg = Inl err"
      unfolding calc_overall_time_def by (cases "overall_timedelta s m p lg") simp_all
    then have "err = OverflowError" by (rule overall_timedelta_Inl)
    with Inl show ?thesis by simp
  next
    case (Inr t)
    from calc_overall_time_Inr [OF Inr] Inr show ?thesis by simp
  qed
  have B: "calc_overall_time s m p lg
        = Inr (str_timedelta (td_of_seconds (elapsed_seconds s m p lg)))"
    if "p \<le> 1000000000 \<and> \<bar>m\<bar> \<le> 1000000000 \<and> \<bar>s\<bar> \<le> 1000000000"
    using that assms(1) by (intro calc_overall_time_returns) simp_all
  from A B show ?thesis
    unfolding Let_def e [symmetric] by (simp add: total_seconds_td_of_seconds)
qed

theorem calc_overall_time_elapsed_witness:
  "(1::int) \<le> 5 \<and> league_time ''nba'' = (4, 48, 12)
   \<and> (5::int) \<le> 1000000000 \<and> \<bar>5::int\<bar> \<le> 1000000000 \<and> \<bar>0::int\<bar> \<le> 1000000000
   \<and> calc_overall_time 0 5 5 ''nba'' = Inr (str_timedelta (td_of_seconds 2880))
   \<and> str_timedelta (td_of_seconds 2880) = ''0:48:00''
   \<and> total_seconds (td_of_seconds 2880) = 2880"
proof -
  have h1: "(1::int) \<le> 5" by simp
  have h2: "league_time ''nba'' = (4, 48, 12)" by (simp add: league_time_def)
  have v: "str_timedelta (td_of_seconds 2880) = ''0:48:00''" by code_simp
  show ?thesis
    using h1 h2 v calc_overall_time_elapsed [OF h1 h2, of 5 0] by (simp add: Let_def)
qed

text \<open>
  C10. For every league and every remaining time with \<open>0 \<le> m < regular_quarter\<close> and
  \<open>0 \<le> s < 60\<close>, the elapsed time computed at \<open>period = num_quarters\<close>, which goes
  through the overtime branch (length \<open>5\<close>, previous \<open>regulation_time - 5\<close> minutes), is the
  value of the regulation formula, that is \<open>regulation_time\<close> minus the remaining time.
\<close>

theorem final_regulation_period:
  assumes "league_time lg = (n, reg, regular)"
    and "0 \<le> m" and "m < regular" and "0 \<le> s" and "s < 60"
  shows "overall_timedelta s m n lg
           = Inr (td_of_seconds (60 * (reg - 5) + (60 * 5 - (60 * m + s))))
         \<and> 60 * (reg - 5) + (60 * 5 - (60 * m + s)) = regulation_elapsed s m n lg
         \<and> regulation_elapsed s m n lg = 60 * reg - (60 * m + s)
         \<and> calc_overall_time s m n lg
             = Inr (str_timedelta (td_of_seconds (regulation_elapsed s m n lg)))"
proof -
  have lg: "(n, reg, regular) = (4, 48, 12) \<or> (n, reg, regular) = (2, 40, 20)"
    using assms(1) by (auto simp: league_time_def split: if_splits)
  have e: "elapsed_seconds s m n lg = 60 * (reg - 5) + (60 * 5 - (60 * m + s))"
    using assms(1) by (simp add: elapsed_seconds_def)
  have r: "regulation_elapsed s m n lg = 60 * reg - (60 * m + s)"
    using assms(1) lg by (auto simp: regulation_elapsed_def)
  have b: "1 \<le> n" "n \<le> 1000000000" "\<bar>m\<bar> \<le> 1000000000" "\<bar>s\<bar> \<le> 1000000000"
    using lg assms(2-5) by auto
  have o: "overall_timedelta s m n lg = Inr (td_of_seconds (elapsed_seconds s m n lg))"
    by (rule overall_timedelta_returns [OF b])
  have c: "calc_overall_time s m n lg
      = Inr (str_timedelta (td_of_seconds (elapsed_seconds s m n lg)))"
    by (rule calc_overall_time_returns [OF b])
  have er: "elapsed_seconds s m n lg = regulation_elapsed s m n lg"
    using e r by simp
  have "overall_timedelta s m n lg
      = Inr (td_of_seconds (60 * (reg - 5) + (60 * 5 - (60 * m + s))))"
    using o by (simp only: e)
  moreover have "60 * (reg - 5) + (60 * 5 - (60 * m + s)) = regulation_elapsed s m n lg"
    using e er by (simp only:)
  moreover have "calc_overall_time s m n lg
      = Inr (str_timedelta (td_of_seconds (regulation_elapsed s m n lg)))"
    using c by (simp only: er)
  ultimately show ?thesis
    using r by blast
qed

theorem final_regulation_period_witness:
  "league_time ''nba'' = (4, 48, 12) \<and> (0::int) \<le> 11 \<and> (11::int) < 12
   \<and> (0::int) \<le> 58 \<and> (58::int) < 60
   \<and> overall_timedelta 58 11 4 ''nba'' = Inr (td_of_seconds 2162)
   \<and> regulation_elapsed 58 11 4 ''nba'' = 2162
   \<and> calc_overall_time 58 11 4 ''nba'' = Inr ''0:36:02''"
proof -
  have h1: "league_time ''nba'' = (4, 48, 12)" by (simp add: league_time_def)
  have h2: "(0::int) \<le> 11" and h3: "(11::int) < 12"
    and h4: "(0::int) \<le> 58" and h5: "(58::int) < 60" by simp_all
  have v: "str_timedelta (td_of_seconds 2162) = ''0:36:02''" by code_simp
  show ?thesis
    using h1 v final_regulation_period [OF h1 h2 h3 h4 h5] by simp
qed

text \<open>
  C6. In an \<open>nba\<close> contest in period \<open>1\<close>, a row with clock \<open>0:00\<close> leaves the period at
  \<open>1\<close> and sets the end-of-period flag (whatever the flag was), and a following row with
  clock \<open>11:58\<close> advances the period to \<open>2\<close> before its elapsed time is computed: the
  row is stored with period \<open>2\<close> and elapsed time \<open>0:12:02\<close>, twelve minutes and two
  seconds.
\<close>

theorem period_advance_example:
  "state_after (adjust_time ''0:00'' 1 e ''nba'') = Inr (1, True)
   \<and> state_after (adjust_time ''11:58'' 1 True ''nba'') = Inr (2, False)
   \<and> time_dict_at ''quarter'' (adjust_time ''11:58'' 1 True ''nba'') = Inr (Some (PInt 2))
   \<and> time_dict_at ''overall_time'' (adjust_time ''11:58'' 1 True ''nba'')
       = Inr (Some (PStr ''0:12:02''))
   \<and> overall_timedelta 58 11 2 ''nba''
       = Inr (td_of_seconds (12 * 60 + (12 * 60 - (11 * 60 + 58))))
   \<and> 12 * 60 + (12 * 60 - (11 * 60 + 58)) = (12 * 60 + 2 :: int)"
proof -
  have t: "state_after (adjust_time ''0:00'' 1 True ''nba'') = Inr (1, True)"
    by code_simp
  have u: "state_after (adjust_time ''0:00'' 1 False ''nba'') = Inr (1, True)"
    by code_simp
  have a: "state_after (adjust_time ''0:00'' 1 e ''nba'') = Inr (1, True)"
    by (cases e) (simp_all only: t u)
  have b: "state_after (adjust_time ''11:58'' 1 True ''nba'') = Inr (2, False)"
    by code_simp
  have c: "time_dict_at ''quarter'' (adjust_time ''11:58'' 1 True ''nba'') = Inr (Some (PInt 2))"
    by code_simp
  have d: "time_dict_at ''overall_time'' (adjust_time ''11:58'' 1 True ''nba'')
       = Inr (Some (PStr ''0:12:02''))"
    by code_simp
  have f: "overall_timedelta 58 11 2 ''nba''
       = Inr (td_of_seconds (12 * 60 + (12 * 60 - (11 * 60 + 58))))"
    by code_simp
  show ?thesis using a b c d f by simp
qed

subsection \<open>The loop of \<open>adjust_game\<close>\<close>

lemma adjust_loop_append:
  "adjust_loop g lg st (xs @ ys) = ebind (adjust_loop g lg st xs) (\<lambda>st'. adjust_loop g lg st' ys)"
proof (induction xs arbitrary: st)
  case Nil
  show ?case by simp
next
  case (Cons x xs)
  show ?case
    by (cases "loop_body g lg st x") (simp_all add: Cons.IH)
qed

lemma adjust_loop_invariant:
  assumes "adjust_loop g lg st rows = Inr st'"
    and "I st"
    and "\<And>s r s'. I s \<Longrightarrow> loop_body g lg s r = Inr s' \<Longrightarrow> I s'"
  shows "I st'"
  using assms(1,2)
proof (induction rows arbitrary: st)
  case Nil
  then show ?case by simp
next
  case (Cons r rows)
  from Cons.prems(1) obtain s where s: "loop_body g lg st r = Inr s"
    and rest: "adjust_loop g lg s rows = Inr st'"
    by (auto simp: ebind_eq_Inr)
  from assms(3) [OF Cons.prems(2) s] have "I s" .
  with Cons.IH rest show ?case by blast
qed

lemma loop_body_skip: "time_stamp r = None \<Longrightarrow> loop_body g lg st r = Inr st"
  by (simp add: loop_body_def)

lemma play_as_dict_Inr:
  assumes "play_as_dict g r = Inr np"
  shows "\<exists>l d. logo r = Some l \<and> game_details r = Some d
           \<and> np = (if upper l \<noteq> away_team g
                   then [''away_play'' \<mapsto> PStr '''', ''home_play'' \<mapsto> PStr d]
                   else [''away_play'' \<mapsto> PStr d, ''home_play'' \<mapsto> PStr ''''])"
proof (cases "logo r")
  case None
  with assms show ?thesis by (simp add: play_as_dict_def)
next
  case l: (Some l)
  show ?thesis
  proof (cases "game_details r")
    case None
    with assms l show ?thesis by (simp add: play_as_dict_def split: if_splits)
  next
    case (Some d)
    with assms l show ?thesis
      by (cases "upper l \<noteq> away_team g") (simp_all add: play_as_dict_def)
  qed
qed

lemma adjust_time_Inr:
  assumes "adjust_time time q e lg = Inr (td, q', e')"
  shows "\<exists>m s ot. parse_clock time = Inr (m, s) \<and> next_quarter m q e = (q', e')
           \<and> calc_overall_time s m q' lg = Inr ot
           \<and> td = [''overall_time'' \<mapsto> PStr ot, ''quarter_time'' \<mapsto> PStr time,
                   ''quarter'' \<mapsto> PInt q']"
proof -
  from assms obtain ms where pc: "parse_clock time = Inr ms"
    and r1: "(case ms of (minutes, seconds) \<Rightarrow>
       case next_quarter minutes q e of (quarter', end_of_quarter') \<Rightarrow>
         ebind (calc_overall_time seconds minutes quarter' lg) (\<lambda>overall_time.
           Inr ([''overall_time'' \<mapsto> PStr overall_time,
                 ''quarter_time'' \<mapsto> PStr time,
                 ''quarter'' \<mapsto> PInt quarter'],
                quarter', end_of_quarter'))) = Inr (td, q', e')"
    unfolding adjust_time_def ebind_eq_Inr by blast
  obtain m s where ms: "ms = (m, s)" by (cases ms)
  obtain q2 e2 where nq: "next_quarter m q e = (q2, e2)" by (cases "next_quarter m q e")
  from r1 have "ebind (calc_overall_time s m q2 lg) (\<lambda>overall_time.
           Inr ([''overall_time'' \<mapsto> PStr overall_time,
                 ''quarter_time'' \<mapsto> PStr time,
                 ''quarter'' \<mapsto> PInt q2], q2, e2)) = Inr (td, q', e')"
    by (simp only: ms nq prod.case)
  then obtain ot where ot: "calc_overall_time s m q2 lg = Inr ot"
    and r2: "Inr ([''overall_time'' \<mapsto> PStr ot, ''quarter_time'' \<mapsto> PStr time,
                 ''quarter'' \<mapsto> PInt q2], q2, e2) = (Inr (td, q', e') :: error + play \<times> int \<times> bool)"
    unfolding ebind_eq_Inr by blast
  from r2 have eqs: "q2 = q'" "e2 = e'"
    and td: "td = [''overall_time'' \<mapsto> PStr ot, ''quarter_time'' \<mapsto> PStr time,
                 ''quarter'' \<mapsto> PInt q2]"
    by auto
  show ?thesis
    using pc ms nq ot td eqs by blast
qed


text \<open>What a turn of the loop that emits a play has done.\<close>

lemma loop_body_Inr:
  assumes "loop_body g lg st r = Inr st'" and "time_stamp r = Some time"
  shows "\<exists>np m s ot a h.
           play_as_dict g r = Inr np
         \<and> parse_clock time = Inr (m, s)
         \<and> next_quarter m (quarter st) (end_of_quarter st) = (quarter st', end_of_quarter st')
         \<and> calc_overall_time s m (quarter st') lg = Inr ot
         \<and> resolve_scores (game st) r = Inr (a, h)
         \<and> game st' = game st @
             [(np ++ [''overall_time'' \<mapsto> PStr ot, ''quarter_time'' \<mapsto> PStr time,
                      ''quarter'' \<mapsto> PInt (quarter st')])
               (''away_score'' \<mapsto> a, ''home_score'' \<mapsto> h)]"
proof -
  have lb: "loop_body g lg st r =
      ebind (play_as_dict g r) (\<lambda>new_play.
      ebind (adjust_time time (quarter st) (end_of_quarter st) lg)
        (\<lambda>(time_dict, quarter', end_of_quarter').
      ebind (resolve_scores (game st) r) (\<lambda>(a, h).
      Inr \<lparr>game = game st @
              [(new_play ++ time_dict)(''away_score'' \<mapsto> a, ''home_score'' \<mapsto> h)],
           quarter = quarter', end_of_quarter = end_of_quarter'\<rparr>)))"
    using assms(2) by (simp add: loop_body_def)
  from assms(1) obtain np where np: "play_as_dict g r = Inr np"
    and r1: "ebind (adjust_time time (quarter st) (end_of_quarter st) lg)
        (\<lambda>(time_dict, quarter', end_of_quarter').
      ebind (resolve_scores (game st) r) (\<lambda>(a, h).
      Inr \<lparr>game = game st @
              [(np ++ time_dict)(''away_score'' \<mapsto> a, ''home_score'' \<mapsto> h)],
           quarter = quarter', end_of_quarter = end_of_quarter'\<rparr>)) = Inr st'"
    unfolding lb ebind_eq_Inr by blast
  from r1 obtain x where at0: "adjust_time time (quarter st) (end_of_quarter st) lg = Inr x"
    and r2: "(case x of (time_dict, quarter', end_of_quarter') \<Rightarrow>
      ebind (resolve_scores (game st) r) (\<lambda>(a, h).
      Inr \<lparr>game = game st @
              [(np ++ time_dict)(''away_score'' \<mapsto> a, ''home_score'' \<mapsto> h)],
           quarter = quarter', end_of_quarter = end_of_quarter'\<rparr>)) = Inr st'"
    unfolding ebind_eq_Inr by blast
  obtain td q' e' where x: "x = (td, q', e')" by (cases x)
  from r2 obtain y where rs0: "resolve_scores (game st) r = Inr y"
    and r3: "(case y of (a, h) \<Rightarrow>
      Inr \<lparr>game = game st @
              [(np ++ td)(''away_score'' \<mapsto> a, ''home_score'' \<mapsto> h)],
           quarter = q', end_of_quarter = e'\<rparr>) = (Inr st' :: error + engine)"
    unfolding x prod.case ebind_eq_Inr by blast
  obtain a h where y: "y = (a, h)" by (cases y)
  from r3 have st': "st' = \<lparr>game = game st @
              [(np ++ td)(''away_score'' \<mapsto> a, ''home_score'' \<mapsto> h)],
           quarter = q', end_of_quarter = e'\<rparr>"
    unfolding y prod.case by simp
  from adjust_time_Inr [OF at0 [unfolded x]] obtain m s ot where
    pc: "parse_clock time = Inr (m, s)"
    and nq: "next_quarter m (quarter st) (end_of_quarter st) = (q', e')"
    and ot: "calc_overall_time s m q' lg = Inr ot"
    and td: "td = [''overall_time'' \<mapsto> PStr ot, ''quarter_time'' \<mapsto> PStr time,
                   ''quarter'' \<mapsto> PInt q']"
    by blast
  have q: "quarter st' = q'" and e: "end_of_quarter st' = e'"
    and gm: "game st' = game st @
      [(np ++ [''overall_time'' \<mapsto> PStr ot, ''quarter_time'' \<mapsto> PStr time,
               ''quarter'' \<mapsto> PInt q'])(''away_score'' \<mapsto> a, ''home_score'' \<mapsto> h)]"
    by (simp_all add: st' td)
  show ?thesis
    using np pc nq ot rs0 gm unfolding q e y by blast
qed

text \<open>
  C9. A row whose clock cell is absent emits no play and leaves the state of the engine
  as it was: the list of plays (which carries the scores forward), the period and the
  end-of-period flag. The rest of the run is as if the row were not there.
\<close>

theorem absent_clock_row_skipped:
  assumes "time_stamp r = None"
  shows "loop_body g lg st r = Inr st
         \<and> adjust_loop g lg st (r # rest) = adjust_loop g lg st rest
         \<and> adjust_game g (before @ r # rest) lg = adjust_game g (before @ rest) lg"
proof -
  have a: "loop_body g lg st r = Inr st" for st
    by (rule loop_body_skip [OF assms])
  have b: "adjust_loop g lg st (r # rest) = adjust_loop g lg st rest" for st
    by (simp add: a)
  have "adjust_game g (before @ r # rest) lg = adjust_game g (before @ rest) lg"
    unfolding adjust_game_def adjust_loop_append b ..
  with a b show ?thesis by blast
qed


theorem absent_clock_row_skipped_witness:
  "time_stamp \<lparr>time_stamp = None, logo = None, game_details = None, no_change = False,
       combined_score = None\<rparr> = None
   \<and> loop_body \<lparr>away_team = ''BOS'', home_team = ''LAL''\<rparr> ''nba''
        \<lparr>game = [], quarter = 3, end_of_quarter = True\<rparr>
        \<lparr>time_stamp = None, logo = None, game_details = None, no_change = False,
          combined_score = None\<rparr>
       = Inr \<lparr>game = [], quarter = 3, end_of_quarter = True\<rparr>
   \<and> adjust_game \<lparr>away_team = ''BOS'', home_team = ''LAL''\<rparr>
        ([\<lparr>time_stamp = Some ''12:00'', logo = Some ''bos'', game_details = Some ''Jump ball'',
           no_change = True, combined_score = None\<rparr>]
         @ \<lparr>time_stamp = None, logo = None, game_details = None, no_change = False,
             combined_score = None\<rparr>
         # [\<lparr>time_stamp = Some ''11:40'', logo = Some ''lal'',
              game_details = Some ''makes layup'', no_change = False,
              combined_score = Some ''0-2''\<rparr>]) ''nba''
       = adjust_game \<lparr>away_team = ''BOS'', home_team = ''LAL''\<rparr>
        ([\<lparr>time_stamp = Some ''12:00'', logo = Some ''bos'', game_details = Some ''Jump ball'',
           no_change = True, combined_score = None\<rparr>]
         @ [\<lparr>time_stamp = Some ''11:40'', logo = Some ''lal'',
              game_details = Some ''makes layup'', no_change = False,
              combined_score = Some ''0-2''\<rparr>]) ''nba''"
proof -
  have h: "time_stamp \<lparr>time_stamp = None, logo = None, game_details = None, no_change = False,
       combined_score = None\<rparr> = None"
    by simp
  show ?thesis
    using h absent_clock_row_skipped [OF h] by blast
qed

subsection \<open>The period\<close>

lemma next_quarter_cases:
  assumes "next_quarter m q e = (q', e')"
  shows "(m = 0 \<and> \<not> e \<longrightarrow> e' \<and> q' = q)
       \<and> (1 < m \<and> e \<longrightarrow> q' = q + 1 \<and> \<not> e')
       \<and> (m = 1 \<longrightarrow> q' = q \<and> e' = e)
       \<and> q \<le> q' \<and> q' \<le> q + 1"
  using assms by (auto simp: next_quarter_def split: if_splits)

lemma state_after_adjust_time:
  assumes "state_after (adjust_time time q e lg) = Inr (q', e')"
    and "parse_clock time = Inr (m, s)"
  shows "next_quarter m q e = (q', e')"
proof -
  from assms(1) obtain td where "adjust_time time q e lg = Inr (td, q', e')"
    by (cases "adjust_time time q e lg") (auto simp: state_after_def)
  from adjust_time_Inr [OF this] assms(2) show ?thesis by auto
qed

text \<open>The entries of a play that the loop has put together.\<close>

lemma emitted_entries:
  assumes "p = (np ++ [''overall_time'' \<mapsto> PStr ot, ''quarter_time'' \<mapsto> PStr time,
                       ''quarter'' \<mapsto> PInt q])(''away_score'' \<mapsto> a, ''home_score'' \<mapsto> h)"
  shows "p ''quarter'' = Some (PInt q)"
    and "p ''quarter_time'' = Some (PStr time)"
    and "p ''overall_time'' = Some (PStr ot)"
    and "p ''away_score'' = Some a"
    and "p ''home_score'' = Some h"
    and "p ''away_play'' = np ''away_play''"
    and "p ''home_play'' = np ''home_play''"
    and "p ''official_play'' = np ''official_play''"
    and "p ''is_official'' = np ''is_official''"
  by (simp_all add: assms map_add_def)

lemma loop_body_quarter:
  assumes "loop_body g lg st r = Inr st'"
  shows "quarter st \<le> quarter st'"
    and "game st' = game st \<or>
         (\<exists>p. game st' = game st @ [p] \<and> p ''quarter'' = Some (PInt (quarter st')))"
proof -
  show "quarter st \<le> quarter st'"
  proof (cases "time_stamp r")
    case None
    with assms show ?thesis by (simp add: loop_body_skip)
  next
    case (Some time)
    from loop_body_Inr [OF assms Some] next_quarter_cases show ?thesis by blast
  qed
  show "game st' = game st \<or>
         (\<exists>p. game st' = game st @ [p] \<and> p ''quarter'' = Some (PInt (quarter st')))"
  proof (cases "time_stamp r")
    case None
    with assms show ?thesis by (simp add: loop_body_skip)
  next
    case (Some time)
    from loop_body_Inr [OF assms Some] emitted_entries(1) show ?thesis by blast
  qed
qed

lemma adjust_loop_quarter:
  assumes "adjust_loop g lg st rows = Inr st'"
  shows "quarter st \<le> quarter st'"
proof -
  have "quarter st \<le> quarter st'"
    by (rule adjust_loop_invariant [OF assms, where I = "\<lambda>s. quarter st \<le> quarter s"])
       (use loop_body_quarter(1) in force)+
  then show ?thesis .
qed

lemma adjust_loop_quarters_sorted:
  assumes "adjust_loop g lg st rows = Inr st'"
    and "game st = []"
  shows "\<exists>qs. column ''quarter'' (game st') = map (\<lambda>q. Some (PInt q)) qs \<and> sorted qs"
proof -
  let ?I = "\<lambda>s. \<exists>qs. column ''quarter'' (game s) = map (\<lambda>q. Some (PInt q)) qs
                   \<and> sorted qs \<and> (\<forall>x\<in>set qs. x \<le> quarter s)"
  have "?I st'"
  proof (rule adjust_loop_invariant [OF assms(1), where I = ?I])
    show "?I st" using assms(2) by (simp add: column_def)
  next
    fix s r s'
    assume I: "?I s" and lb: "loop_body g lg s r = Inr s'"
    from I obtain qs where qs: "column ''quarter'' (game s) = map (\<lambda>q. Some (PInt q)) qs"
      "sorted qs" "\<forall>x\<in>set qs. x \<le> quarter s"
      by blast
    from loop_body_quarter [OF lb] have le: "quarter s \<le> quarter s'"
      and gm: "game s' = game s \<or>
         (\<exists>p. game s' = game s @ [p] \<and> p ''quarter'' = Some (PInt (quarter s')))"
      by blast+
    from gm show "?I s'"
    proof
      assume "game s' = game s"
      with qs le show ?thesis by force
    next
      assume "\<exists>p. game s' = game s @ [p] \<and> p ''quarter'' = Some (PInt (quarter s'))"
      then obtain p where p: "game s' = game s @ [p]" "p ''quarter'' = Some (PInt (quarter s'))"
        by blast
      have "column ''quarter'' (game s') = map (\<lambda>q. Some (PInt q)) (qs @ [quarter s'])"
        using p qs(1) by (simp add: column_def)
      moreover have "sorted (qs @ [quarter s'])"
        using qs(2,3) le by (force simp: sorted_append)
      moreover have "\<forall>x\<in>set (qs @ [quarter s']). x \<le> quarter s'"
        using qs(3) le by force
      ultimately show ?thesis by blast
    qed
  qed
  then show ?thesis by blast
qed

text \<open>
  C2. The period state machine of \<open>_adjust_time\<close>: on a row whose minutes are \<open>0\<close> while
  the end-of-period flag is not set, the flag becomes set and the period stays; on a row
  whose minutes exceed \<open>1\<close> while the flag is set, the period grows by exactly \<open>1\<close> and
  the flag is cleared; a row whose minutes are \<open>1\<close> changes neither. So the period never
  decreases: not from row to row, not over a run of the loop, and the periods stored in
  the plays of \<open>adjust_game\<close> are in non-decreasing order.
\<close>

theorem period_state_machine:
  "(state_after (adjust_time time q e lg) = Inr (q', e') \<and> parse_clock time = Inr (m, s) \<longrightarrow>
        (m = 0 \<and> \<not> e \<longrightarrow> e' \<and> q' = q)
      \<and> (1 < m \<and> e \<longrightarrow> q' = q + 1 \<and> \<not> e')
      \<and> (m = 1 \<longrightarrow> q' = q \<and> e' = e)
      \<and> q \<le> q')
   \<and> (map_sum id quarter (adjust_loop g lg st rows) = Inr q'' \<longrightarrow> quarter st \<le> q'')
   \<and> (map_sum id (column ''quarter'') (adjust_game g rows lg) = Inr c \<longrightarrow>
        (\<exists>qs. c = map (\<lambda>q. Some (PInt q)) qs \<and> sorted qs))"
proof -
  have A: "(m = 0 \<and> \<not> e \<longrightarrow> e' \<and> q' = q)
      \<and> (1 < m \<and> e \<longrightarrow> q' = q + 1 \<and> \<not> e')
      \<and> (m = 1 \<longrightarrow> q' = q \<and> e' = e)
      \<and> q \<le> q'"
    if a: "state_after (adjust_time time q e lg) = Inr (q', e') \<and> parse_clock time = Inr (m, s)"
  proof -
    from state_after_adjust_time [of time q e lg q' e' m s] a
    have nq: "next_quarter m q e = (q', e')" by blast
    from next_quarter_cases [OF nq] show ?thesis by blast
  qed
  have B: "quarter st \<le> q''"
    if "map_sum id quarter (adjust_loop g lg st rows) = Inr q''"
  proof -
    from that obtain st' where "adjust_loop g lg st rows = Inr st'" "quarter st' = q''"
      by (cases "adjust_loop g lg st rows") auto
    with adjust_loop_quarter show ?thesis by blast
  qed
  have C: "\<exists>qs. c = map (\<lambda>q. Some (PInt q)) qs \<and> sorted qs"
    if "map_sum id (column ''quarter'') (adjust_game g rows lg) = Inr c"
  proof -
    from that obtain gm where gm: "adjust_game g rows lg = Inr gm"
      and c: "c = column ''quarter'' gm"
      by (cases "adjust_game g rows lg") auto
    from gm obtain st' where
      st': "adjust_loop g lg \<lparr>game = [], quarter = 1, end_of_quarter = False\<rparr> rows = Inr st'"
      and g: "gm = game st'"
      by (auto simp: adjust_game_def ebind_eq_Inr)
    from adjust_loop_quarters_sorted [OF st'] c g show ?thesis by simp
  qed
  from A B C show ?thesis by blast
qed


theorem period_state_machine_witness:
  "state_after (adjust_time ''0:30'' 2 False ''nba'') = Inr (2, True)
   \<and> parse_clock ''0:30'' = Inr (0, 30)
   \<and> state_after (adjust_time ''11:58'' 1 True ''nba'') = Inr (2, False)
   \<and> parse_clock ''11:58'' = Inr (11, 58)
   \<and> state_after (adjust_time ''1:00'' 1 True ''nba'') = Inr (1, True)
   \<and> parse_clock ''1:00'' = Inr (1, 0)
   \<and> map_sum id quarter
        (adjust_loop \<lparr>away_team = ''BOS'', home_team = ''LAL''\<rparr> ''nba''
           \<lparr>game = [], quarter = 1, end_of_quarter = False\<rparr>
           [\<lparr>time_stamp = Some ''12:00'', logo = Some ''bos'', game_details = Some ''Jump ball'',
              no_change = True, combined_score = None\<rparr>,
            \<lparr>time_stamp = Some ''0:00'', logo = Some ''lal'', game_details = Some ''makes layup'',
              no_change = False, combined_score = Some ''20-22''\<rparr>,
            \<lparr>time_stamp = Some ''11:58'', logo = Some ''bos'', game_details = Some ''misses jumper'',
              no_change = True, combined_score = None\<rparr>]) = Inr 2
   \<and> quarter \<lparr>game = [], quarter = 1, end_of_quarter = False\<rparr> \<le> 2
   \<and> map_sum id (column ''quarter'')
        (adjust_game \<lparr>away_team = ''BOS'', home_team = ''LAL''\<rparr>
           [\<lparr>time_stamp = Some ''12:00'', logo = Some ''bos'', game_details = Some ''Jump ball'',
              no_change = True, combined_score = None\<rparr>,
            \<lparr>time_stamp = Some ''0:00'', logo = Some ''lal'', game_details = Some ''makes layup'',
              no_change = False, combined_score = Some ''20-22''\<rparr>,
            \<lparr>time_stamp = Some ''11:58'', logo = Some ''bos'', game_details = Some ''misses jumper'',
              no_change = True, combined_score = None\<rparr>] ''nba'')
       = Inr [Some (PInt 1), Some (PInt 1), Some (PInt 2)]
   \<and> (\<exists>qs. [Some (PInt 1), Some (PInt 1), Some (PInt 2)] = map (\<lambda>q. Some (PInt q)) qs
          \<and> sorted qs)"
proof -
  have a1: "state_after (adjust_time ''0:30'' 2 False ''nba'') = Inr (2, True)"
    and a2: "parse_clock ''0:30'' = Inr (0, 30)"
    and b1: "state_after (adjust_time ''11:58'' 1 True ''nba'') = Inr (2, False)"
    and b2: "parse_clock ''11:58'' = Inr (11, 58)"
    and c1: "state_after (adjust_time ''1:00'' 1 True ''nba'') = Inr (1, True)"
    and c2: "parse_clock ''1:00'' = Inr (1, 0)"
    by code_simp+
  have d: "map_sum id quarter
        (adjust_loop \<lparr>away_team = ''BOS'', home_team = ''LAL''\<rparr> ''nba''
           \<lparr>game = [], quarter = 1, end_of_quarter = False\<rparr>
           [\<lparr>time_stamp = Some ''12:00'', logo = Some ''bos'', game_details = Some ''Jump ball'',
              no_change = True, combined_score = None\<rparr>,
            \<lparr>time_stamp = Some ''0:00'', logo = Some ''lal'', game_details = Some ''makes layup'',
              no_change = False, combined_score = Some ''20-22''\<rparr>,
            \<lparr>time_stamp = Some ''11:58'', logo = Some ''bos'', game_details = Some ''misses jumper'',
              no_change = True, combined_score = None\<rparr>]) = Inr 2"
    by code_simp
  have e: "map_sum id (column ''quarter'')
        (adjust_game \<lparr>away_team = ''BOS'', home_team = ''LAL''\<rparr>
           [\<lparr>time_stamp = Some ''12:00'', logo = Some ''bos'', game_details = Some ''Jump ball'',
              no_change = True, combined_score = None\<rparr>,
            \<lparr>time_stamp = Some ''0:00'', logo = Some ''lal'', game_details = Some ''makes layup'',
              no_change = False, combined_score = Some ''20-22''\<rparr>,
            \<lparr>time_stamp = Some ''11:58'', logo = Some ''bos'', game_details = Some ''misses jumper'',
              no_change = True, combined_score = None\<rparr>] ''nba'')
       = Inr [Some (PInt 1), Some (PInt 1), Some (PInt 2)]"
    by code_simp
  note t = period_state_machine [where lg = "''nba''"
      and g = "\<lparr>away_team = ''BOS'', home_team = ''LAL''\<rparr>"
      and st = "\<lparr>game = [], quarter = 1, end_of_quarter = False\<rparr>"
      and rows = "[\<lparr>time_stamp = Some ''12:00'', logo = Some ''bos'', game_details = Some ''Jump ball'',
              no_change = True, combined_score = None\<rparr>,
            \<lparr>time_stamp = Some ''0:00'', logo = Some ''lal'', game_details = Some ''makes layup'',
              no_change = False, combined_score = Some ''20-22''\<rparr>,
            \<lparr>time_stamp = Some ''11:58'', logo = Some ''bos'', game_details = Some ''misses jumper'',
              no_change = True, combined_score = None\<rparr>]"
      and q'' = 2 and c = "[Some (PInt 1), Some (PInt 1), Some (PInt 2)]"]
  from t [where time = "''0:30''" and q = 2 and e = False and q' = 2 and e' = True and m = 0 and s = 30]
    t [where time = "''11:58''" and q = 1 and e = True and q' = 2 and e' = False and m = 11 and s = 58]
    t [where time = "''1:00''" and q = 1 and e = True and q' = 1 and e' = True and m = 1 and s = 0]
    a1 a2 b1 b2 c1 c2 d e
  show ?thesis by blast
qed


subsection \<open>Clocks out of range and unknown teams\<close>

text \<open>
  C3, as the code has it. No range check is made on the clock and there is no error for a
  malformed clock: once the clock text has parsed to integers \<open>m\<close> and \<open>s\<close>, in range
  or not, the only failure of \<open>_adjust_time\<close> is the \<open>OverflowError\<close> of \<open>timedelta\<close>;
  with a period between \<open>1\<close> and \<open>10^9\<close> and minutes and seconds of magnitude at most
  \<open>10^9\<close> it returns, and the elapsed time it stores is the text of
  \<open>previous + (period_length - (60 * m + s) seconds)\<close> for the period in effect.
\<close>

theorem out_of_range_clock_computed:
  "parse_clock time = Inr (m, s) \<longrightarrow>
     (adjust_time time q e lg = Inl err \<longrightarrow> err = OverflowError)
   \<and> (1 \<le> q \<and> q < 1000000000 \<and> \<bar>m\<bar> \<le> 1000000000 \<and> \<bar>s\<bar> \<le> 1000000000 \<longrightarrow>
        state_after (adjust_time time q e lg) = Inr (next_quarter m q e)
      \<and> time_dict_at ''overall_time'' (adjust_time time q e lg)
          = Inr (Some (PStr (str_timedelta (td_of_seconds
                  (elapsed_seconds s m (fst (next_quarter m q e)) lg))))))"
proof -
  obtain q' e' where nq: "next_quarter m q e = (q', e')"
    by (cases "next_quarter m q e")
  have at: "adjust_time time q e lg =
      ebind (calc_overall_time s m q' lg) (\<lambda>overall_time.
           Inr ([''overall_time'' \<mapsto> PStr overall_time,
                 ''quarter_time'' \<mapsto> PStr time,
                 ''quarter'' \<mapsto> PInt q'], q', e'))"
    if "parse_clock time = Inr (m, s)"
    using that nq by (simp add: adjust_time_def)
  have A: "err = OverflowError"
    if pc: "parse_clock time = Inr (m, s)" and er: "adjust_time time q e lg = Inl err"
  proof -
    from er have "calc_overall_time s m q' lg = Inl err"
      unfolding at [OF pc] by (cases "calc_overall_time s m q' lg") simp_all
    then have "overall_timedelta s m q' lg = Inl err"
      unfolding calc_overall_time_def by (cases "overall_timedelta s m q' lg") simp_all
    then show ?thesis by (rule overall_timedelta_Inl)
  qed
  have B: "state_after (adjust_time time q e lg) = Inr (next_quarter m q e)
      \<and> time_dict_at ''overall_time'' (adjust_time time q e lg)
          = Inr (Some (PStr (str_timedelta (td_of_seconds
                  (elapsed_seconds s m (fst (next_quarter m q e)) lg)))))"
    if pc: "parse_clock time = Inr (m, s)"
      and b: "1 \<le> q" "q < 1000000000" "\<bar>m\<bar> \<le> 1000000000" "\<bar>s\<bar> \<le> 1000000000"
  proof -
    from next_quarter_cases [OF nq] b(1,2) have q': "1 \<le> q'" "q' \<le> 1000000000"
      by linarith+
    have c: "calc_overall_time s m q' lg
        = Inr (str_timedelta (td_of_seconds (elapsed_seconds s m q' lg)))"
      by (rule calc_overall_time_returns [OF q' b(3,4)])
    show ?thesis
      unfolding at [OF pc] c nq by (simp add: state_after_def time_dict_at_def)
  qed
  from A B show ?thesis by blast
qed

theorem out_of_range_clock_computed_witness:
  "parse_clock ''5:75'' = Inr (5, 75)
   \<and> (1::int) \<le> 1 \<and> (1::int) < 1000000000 \<and> \<bar>5::int\<bar> \<le> 1000000000 \<and> \<bar>75::int\<bar> \<le> 1000000000
   \<and> state_after (adjust_time ''5:75'' 1 False ''nba'') = Inr (1, False)
   \<and> time_dict_at ''overall_time'' (adjust_time ''5:75'' 1 False ''nba'')
       = Inr (Some (PStr ''0:05:45''))
   \<and> parse_clock ''99999999999999999999:00'' = Inr (99999999999999999999, 0)
   \<and> adjust_time ''99999999999999999999:00'' 1 False ''nba'' = Inl OverflowError"
proof -
  have h1: "parse_clock ''5:75'' = Inr (5, 75)" by code_simp
  have h2: "(1::int) \<le> 1 \<and> (1::int) < 1000000000 \<and> \<bar>5::int\<bar> \<le> 1000000000
      \<and> \<bar>75::int\<bar> \<le> 1000000000"
    by simp
  have v1: "next_quarter 5 1 False = (1, False)" by code_simp
  have v2: "str_timedelta (td_of_seconds (elapsed_seconds 75 5 1 ''nba'')) = ''0:05:45''"
    by code_simp
  have h3: "parse_clock ''99999999999999999999:00'' = Inr (99999999999999999999, 0)"
    by code_simp
  have "isl (adjust_time ''99999999999999999999:00'' 1 False ''nba'') = True" by code_simp
  then obtain err where h4: "adjust_time ''99999999999999999999:00'' 1 False ''nba'' = Inl err"
    by (cases "adjust_time ''99999999999999999999:00'' 1 False ''nba''") auto
  from out_of_range_clock_computed
      [of "''99999999999999999999:00''" 99999999999999999999 0 1 False "''nba''" err] h3 h4
  have w2: "adjust_time ''99999999999999999999:00'' 1 False ''nba'' = Inl OverflowError"
    by blast
  from out_of_range_clock_computed [of "''5:75''" 5 75 1 False "''nba''"] h1 h2
  have w1: "state_after (adjust_time ''5:75'' 1 False ''nba'') = Inr (1, False)
     \<and> time_dict_at ''overall_time'' (adjust_time ''5:75'' 1 False ''nba'')
       = Inr (Some (PStr ''0:05:45''))"
    by (simp add: v1 v2)
  from h1 h2 h3 w1 w2 show ?thesis by blast
qed

text \<open>
  The claim C3 as stated fails: in an \<open>nba\<close> contest a first row with clock \<open>5:75\<close>
  (seconds out of range) is normalised without error and stored with elapsed time
  \<open>0:05:45\<close>, and a first row with clock \<open>13:00\<close> (minutes beyond the twelve of the
  period) is normalised without error and stored with the negative elapsed time
  \<open>-1 day, 23:59:00\<close>.
\<close>

theorem malformed_clock_counterexample:
  "parse_clock ''5:75'' = Inr (5, 75)
   \<and> \<not> isl (adjust_game \<lparr>away_team = ''BOS'', home_team = ''LAL''\<rparr>
        [\<lparr>time_stamp = Some ''5:75'', logo = Some ''lal'', game_details = Some ''makes layup'',
           no_change = False, combined_score = Some ''0-2''\<rparr>] ''nba'')
   \<and> map_sum id (column ''overall_time'')
       (adjust_game \<lparr>away_team = ''BOS'', home_team = ''LAL''\<rparr>
        [\<lparr>time_stamp = Some ''5:75'', logo = Some ''lal'', game_details = Some ''makes layup'',
           no_change = False, combined_score = Some ''0-2''\<rparr>] ''nba'')
       = Inr [Some (PStr ''0:05:45'')]
   \<and> parse_clock ''13:00'' = Inr (13, 0)
   \<and> \<not> isl (adjust_game \<lparr>away_team = ''BOS'', home_team = ''LAL''\<rparr>
        [\<lparr>time_stamp = Some ''13:00'', logo = Some ''lal'', game_details = Some ''makes layup'',
           no_change = False, combined_score = Some ''0-2''\<rparr>] ''nba'')
   \<and> map_sum id (column ''overall_time'')
       (adjust_game \<lparr>away_team = ''BOS'', home_team = ''LAL''\<rparr>
        [\<lparr>time_stamp = Some ''13:00'', logo = Some ''lal'', game_details = Some ''makes layup'',
           no_change = False, combined_score = Some ''0-2''\<rparr>] ''nba'')
       = Inr [Some (PStr ''-1 day, 23:59:00'')]"
  by code_simp

text \<open>
  C4, as the code has it. \<open>_play_as_dict\<close> compares the team identifier of the logo, in
  upper case, with the away team only: every row whose identifier differs from the away
  team, whether or not it is the home team's, has its text stored as the home side's
  play, with an empty away play, and no error is raised for an unknown team.
\<close>

theorem team_other_than_away_is_home:
  assumes "logo r = Some l" and "upper l \<noteq> away_team g" and "game_details r = Some d"
  shows "play_as_dict g r = Inr [''away_play'' \<mapsto> PStr '''', ''home_play'' \<mapsto> PStr d]
     \<and> (loop_body g lg st r = Inr st' \<and> time_stamp r \<noteq> None \<longrightarrow>
          (\<exists>p. game st' = game st @ [p]
              \<and> p ''away_play'' = Some (PStr '''') \<and> p ''home_play'' = Some (PStr d)))"
proof -
  have pd: "play_as_dict g r = Inr [''away_play'' \<mapsto> PStr '''', ''home_play'' \<mapsto> PStr d]"
    using assms by (simp add: play_as_dict_def)
  have "\<exists>p. game st' = game st @ [p]
              \<and> p ''away_play'' = Some (PStr '''') \<and> p ''home_play'' = Some (PStr d)"
    if lb: "loop_body g lg st r = Inr st'" and ts: "time_stamp r \<noteq> None"
  proof -
    from ts obtain time where t: "time_stamp r = Some time" by blast
    from loop_body_Inr [OF lb t] pd obtain m s ot a h where
      gm: "game st' = game st @
             [([''away_play'' \<mapsto> PStr '''', ''home_play'' \<mapsto> PStr d]
                 ++ [''overall_time'' \<mapsto> PStr ot, ''quarter_time'' \<mapsto> PStr time,
                      ''quarter'' \<mapsto> PInt (quarter st')])
               (''away_score'' \<mapsto> a, ''home_score'' \<mapsto> h)]"
      by auto
    define p where "p = ([''away_play'' \<mapsto> PStr '''', ''home_play'' \<mapsto> PStr d]
                 ++ [''overall_time'' \<mapsto> PStr ot, ''quarter_time'' \<mapsto> PStr time,
                      ''quarter'' \<mapsto> PInt (quarter st')])
               (''away_score'' \<mapsto> a, ''home_score'' \<mapsto> h)"
    have "p ''away_play'' = Some (PStr '''')" "p ''home_play'' = Some (PStr d)"
      using emitted_entries(6,7) [OF p_def] by simp_all
    moreover have "game st' = game st @ [p]" using gm by (simp only: p_def)
    ultimately show ?thesis by blast
  qed
  with pd show ?thesis by blast
qed


theorem team_other_than_away_is_home_witness:
  "logo \<lparr>time_stamp = Some ''11:40'', logo = Some ''nyk'', game_details = Some ''makes layup'',
         no_change = False, combined_score = Some ''0-2''\<rparr> = Some ''nyk''
   \<and> upper ''nyk'' \<noteq> away_team \<lparr>away_team = ''BOS'', home_team = ''LAL''\<rparr>
   \<and> game_details \<lparr>time_stamp = Some ''11:40'', logo = Some ''nyk'',
         game_details = Some ''makes layup'', no_change = False,
         combined_score = Some ''0-2''\<rparr> = Some ''makes layup''
   \<and> play_as_dict \<lparr>away_team = ''BOS'', home_team = ''LAL''\<rparr>
        \<lparr>time_stamp = Some ''11:40'', logo = Some ''nyk'', game_details = Some ''makes layup'',
          no_change = False, combined_score = Some ''0-2''\<rparr>
       = Inr [''away_play'' \<mapsto> PStr '''', ''home_play'' \<mapsto> PStr ''makes layup'']
   \<and> (\<exists>st'. loop_body \<lparr>away_team = ''BOS'', home_team = ''LAL''\<rparr> ''nba''
            \<lparr>game = [], quarter = 1, end_of_quarter = False\<rparr>
            \<lparr>time_stamp = Some ''11:40'', logo = Some ''nyk'', game_details = Some ''makes layup'',
              no_change = False, combined_score = Some ''0-2''\<rparr> = Inr st'
         \<and> (\<exists>p. game st' = [p] \<and> p ''away_play'' = Some (PStr '''')
               \<and> p ''home_play'' = Some (PStr ''makes layup'')))"
proof -
  let ?g = "\<lparr>away_team = ''BOS'', home_team = ''LAL''\<rparr>"
  let ?st0 = "\<lparr>game = [], quarter = 1, end_of_quarter = False\<rparr>"
  let ?r = "\<lparr>time_stamp = Some ''11:40'', logo = Some ''nyk'', game_details = Some ''makes layup'',
              no_change = False, combined_score = Some ''0-2''\<rparr>"
  have h1: "logo ?r = Some ''nyk''" by simp
  have h2: "upper ''nyk'' \<noteq> away_team ?g" by code_simp
  have h3: "game_details ?r = Some ''makes layup''" by simp
  have "isl (loop_body ?g ''nba'' ?st0 ?r) = False" by code_simp
  then obtain s1 where s1: "loop_body ?g ''nba'' ?st0 ?r = Inr s1"
    by (cases "loop_body ?g ''nba'' ?st0 ?r") auto
  have ts: "time_stamp ?r \<noteq> None" by simp
  note t = team_other_than_away_is_home [OF h1 h2 h3, of "''nba''" ?st0 s1]
  from t s1 ts have w: "\<exists>p. game s1 = [p] \<and> p ''away_play'' = Some (PStr '''')
               \<and> p ''home_play'' = Some (PStr ''makes layup'')"
    by auto
  from t have pd: "play_as_dict ?g ?r
       = Inr [''away_play'' \<mapsto> PStr '''', ''home_play'' \<mapsto> PStr ''makes layup'']"
    by blast
  from h1 h2 h3 pd s1 w show ?thesis by blast
qed

text \<open>
  The claim C4 as stated fails: with the teams \<open>BOS\<close> (away) and \<open>LAL\<close> (home), a row
  whose logo identifier is \<open>nyk\<close>, which is neither, is normalised without error and
  its text is stored as the home side's play.
\<close>

theorem unknown_team_counterexample:
  "upper ''nyk'' = ''NYK''
   \<and> ''NYK'' \<noteq> away_team \<lparr>away_team = ''BOS'', home_team = ''LAL''\<rparr>
   \<and> ''NYK'' \<noteq> home_team \<lparr>away_team = ''BOS'', home_team = ''LAL''\<rparr>
   \<and> \<not> isl (adjust_game \<lparr>away_team = ''BOS'', home_team = ''LAL''\<rparr>
        [\<lparr>time_stamp = Some ''11:40'', logo = Some ''nyk'', game_details = Some ''makes layup'',
           no_change = False, combined_score = Some ''0-2''\<rparr>] ''nba'')
   \<and> map_sum id (column ''home_play'')
       (adjust_game \<lparr>away_team = ''BOS'', home_team = ''LAL''\<rparr>
        [\<lparr>time_stamp = Some ''11:40'', logo = Some ''nyk'', game_details = Some ''makes layup'',
           no_change = False, combined_score = Some ''0-2''\<rparr>] ''nba'')
       = Inr [Some (PStr ''makes layup'')]
   \<and> map_sum id (column ''away_play'')
       (adjust_game \<lparr>away_team = ''BOS'', home_team = ''LAL''\<rparr>
        [\<lparr>time_stamp = Some ''11:40'', logo = Some ''nyk'', game_details = Some ''makes layup'',
           no_change = False, combined_score = Some ''0-2''\<rparr>] ''nba'')
       = Inr [Some (PStr '''')]"
  by code_simp

subsection \<open>The entries of a play\<close>

lemma play_as_dict_entries:
  assumes "play_as_dict g r = Inr np"
  shows "np ''official_play'' = None" and "np ''is_official'' = None"
    and "np ''away_play'' = Some (PStr '''') \<or> np ''home_play'' = Some (PStr '''')"
  using play_as_dict_Inr [OF assms] by (auto split: if_splits)

text \<open>
  Every play of the output has an empty away play or an empty home play, and none has
  an entry \<open>official_play\<close> (the key that the docstrings of the module announce) or
  \<open>is_official\<close>.
\<close>

lemma emitted_plays_entries:
  assumes "adjust_game g rows lg = Inr gm" and "p \<in> set gm"
  shows "p ''official_play'' = None \<and> p ''is_official'' = None
       \<and> (p ''away_play'' = Some (PStr '''') \<or> p ''home_play'' = Some (PStr ''''))"
proof -
  let ?P = "\<lambda>p. p ''official_play'' = None \<and> p ''is_official'' = None
       \<and> (p ''away_play'' = Some (PStr '''') \<or> p ''home_play'' = Some (PStr ''''))"
  let ?I = "\<lambda>s. \<forall>p\<in>set (game s). ?P p"
  from assms(1) obtain st' where
    st': "adjust_loop g lg \<lparr>game = [], quarter = 1, end_of_quarter = False\<rparr> rows = Inr st'"
    and g: "gm = game st'"
    by (auto simp: adjust_game_def ebind_eq_Inr)
  have "?I st'"
  proof (rule adjust_loop_invariant [OF st', where I = ?I])
    show "?I \<lparr>game = [], quarter = 1, end_of_quarter = False\<rparr>" by simp
  next
    fix s r s'
    assume I: "?I s" and lb: "loop_body g lg s r = Inr s'"
    show "?I s'"
    proof (cases "time_stamp r")
      case None
      with lb I show ?thesis by (simp add: loop_body_skip)
    next
      case (Some time)
      from loop_body_Inr [OF lb Some] obtain np m s0 ot a h where
        np: "play_as_dict g r = Inr np"
        and gm: "game s' = game s @
             [(np ++ [''overall_time'' \<mapsto> PStr ot, ''quarter_time'' \<mapsto> PStr time,
                      ''quarter'' \<mapsto> PInt (quarter s')])
               (''away_score'' \<mapsto> a, ''home_score'' \<mapsto> h)]"
        by blast
      define p where "p = (np ++ [''overall_time'' \<mapsto> PStr ot, ''quarter_time'' \<mapsto> PStr time,
                      ''quarter'' \<mapsto> PInt (quarter s')])
               (''away_score'' \<mapsto> a, ''home_score'' \<mapsto> h)"
      have "?P p"
        using emitted_entries(6-9) [OF p_def] play_as_dict_entries [OF np] by simp
      moreover have "game s' = game s @ [p]" using gm by (simp only: p_def)
      ultimately show ?thesis using I by simp
    qed
  qed
  with assms(2) g show ?thesis by blast
qed

text \<open>
  C8, at a row of the kind the claim calls official: the first row of an \<open>nba\<close> contest,
  with an empty description and a no-change score cell, followed by a basket of the
  home side. Both texts of the first play are empty, and its score cell was a no-change
  marker, yet the play has no entry \<open>official_play\<close> and none named \<open>is_official\<close>: the
  dictionary holds the two texts, the three time entries and the two scores only.
\<close>

theorem official_play_missing:
  "map_sum id (column ''away_play'')
       (adjust_game \<lparr>away_team = ''BOS'', home_team = ''LAL''\<rparr>
        [\<lparr>time_stamp = Some ''12:00'', logo = Some ''bos'', game_details = Some '''',
           no_change = True, combined_score = None\<rparr>,
         \<lparr>time_stamp = Some ''11:40'', logo = Some ''lal'', game_details = Some ''makes layup'',
           no_change = False, combined_score = Some ''0-2''\<rparr>] ''nba'')
       = Inr [Some (PStr ''''), Some (PStr '''')]
   \<and> map_sum id (column ''home_play'')
       (adjust_game \<lparr>away_team = ''BOS'', home_team = ''LAL''\<rparr>
        [\<lparr>time_stamp = Some ''12:00'', logo = Some ''bos'', game_details = Some '''',
           no_change = True, combined_score = None\<rparr>,
         \<lparr>time_stamp = Some ''11:40'', logo = Some ''lal'', game_details = Some ''makes layup'',
           no_change = False, combined_score = Some ''0-2''\<rparr>] ''nba'')
       = Inr [Some (PStr ''''), Some (PStr ''makes layup'')]
   \<and> map_sum id (column ''official_play'')
       (adjust_game \<lparr>away_team = ''BOS'', home_team = ''LAL''\<rparr>
        [\<lparr>time_stamp = Some ''12:00'', logo = Some ''bos'', game_details = Some '''',
           no_change = True, combined_score = None\<rparr>,
         \<lparr>time_stamp = Some ''11:40'', logo = Some ''lal'', game_details = Some ''makes layup'',
           no_change = False, combined_score = Some ''0-2''\<rparr>] ''nba'')
       = Inr [None, None]
   \<and> map_sum id (column ''is_official'')
       (adjust_game \<lparr>away_team = ''BOS'', home_team = ''LAL''\<rparr>
        [\<lparr>time_stamp = Some ''12:00'', logo = Some ''bos'', game_details = Some '''',
           no_change = True, combined_score = None\<rparr>,
         \<lparr>time_stamp = Some ''11:40'', logo = Some ''lal'', game_details = Some ''makes layup'',
           no_change = False, combined_score = Some ''0-2''\<rparr>] ''nba'')
       = Inr [None, None]"
  by code_simp


subsection \<open>The text of a duration\<close>

text \<open>
  \<open>str\<close> loses nothing: the decimal texts of two numbers differ, and so do the texts of
  two durations. The elapsed time that a play stores as a text is therefore one duration.
\<close>

lemma dec_nat_small: "n < 10 \<Longrightarrow> dec_nat n = [''0123456789'' ! n]"
  by (subst dec_nat.simps) (simp only: if_True)

lemma dec_nat_big:
  "\<not> n < 10 \<Longrightarrow> dec_nat n = dec_nat (n div 10) @ [''0123456789'' ! (n mod 10)]"
  by (subst dec_nat.simps) (simp only: if_False)

lemma digit_val_nth:
  assumes "d < 10"
  shows "digit_val (''0123456789'' ! d) = int d" and "''0123456789'' ! d \<in> set ''0123456789''"
proof -
  from assms have "d \<in> {0, 1, 2, 3, 4, 5, 6, 7, 8, 9}" by auto
  then show "digit_val (''0123456789'' ! d) = int d"
    by (auto simp: digit_val_def)
  from assms show "''0123456789'' ! d \<in> set ''0123456789''"
    by (intro nth_mem) simp
qed

lemma dec_value_snoc: "dec_value (ds @ [c]) = 10 * dec_value ds + digit_val c"
  by (simp add: dec_value_def)

lemma dec_value_dec_nat: "dec_value (dec_nat n) = int n"
proof (induction n rule: dec_nat.induct)
  case (1 n)
  show ?case
  proof (cases "n < 10")
    case True
    then show ?thesis
      by (simp add: dec_nat_small [OF True] dec_value_def digit_val_nth(1) [OF True])
  next
    case False
    have m: "n mod 10 < 10" by simp
    from False 1 have ih: "dec_value (dec_nat (n div 10)) = int (n div 10)" by simp
    have "dec_value (dec_nat n)
        = dec_value (dec_nat (n div 10) @ [''0123456789'' ! (n mod 10)])"
      using dec_nat_big [OF False] by (rule arg_cong)
    also have "\<dots> = 10 * dec_value (dec_nat (n div 10))
        + digit_val (''0123456789'' ! (n mod 10))"
      by (rule dec_value_snoc)
    also have "\<dots> = 10 * int (n div 10) + int (n mod 10)"
      unfolding ih digit_val_nth(1) [OF m] ..
    also have "\<dots> = int n"
      by presburger
    finally show ?thesis .
  qed
qed

lemma dec_nat_digits: "set (dec_nat n) \<subseteq> set ''0123456789''"
proof (induction n rule: dec_nat.induct)
  case (1 n)
  show ?case
  proof (cases "n < 10")
    case True
    from digit_val_nth(2) [OF True] show ?thesis
      by (simp only: dec_nat_small [OF True]) simp
  next
    case False
    have m: "n mod 10 < 10" by simp
    from False 1 have "set (dec_nat (n div 10)) \<subseteq> set ''0123456789''" by simp
    with digit_val_nth(2) [OF m] show ?thesis
      by (simp only: dec_nat_big [OF False]) simp
  qed
qed

lemma dec_nat_nonempty: "dec_nat n \<noteq> []"
proof (cases "n < 10")
  case True
  show ?thesis by (simp add: dec_nat_small [OF True])
next
  case False
  show ?thesis by (simp add: dec_nat_big [OF False])
qed

lemma dec_nat_inj: "dec_nat a = dec_nat b \<Longrightarrow> a = b"
  by (metis dec_value_dec_nat of_nat_eq_iff)


lemma dec_nat_is_digit: "c \<in> set (dec_nat n) \<Longrightarrow> is_digit c"
  unfolding is_digit_def using dec_nat_digits [of n] by blast

lemma not_digit: "\<not> is_digit (CHR '' '')" "\<not> is_digit (CHR ''-'')"
  by (simp_all add: is_digit_def)

lemma fmt_d_no_space: "CHR '' '' \<notin> set (fmt_d n)"
proof
  assume "CHR '' '' \<in> set (fmt_d n)"
  then have "CHR '' '' \<in> set (dec_nat (nat (- n))) \<or> CHR '' '' \<in> set (dec_nat (nat n))"
    by (cases "n < 0") (simp_all add: fmt_d_def)
  with dec_nat_is_digit not_digit(1) show False by blast
qed

lemma hd_dec_nat: "hd (dec_nat n) \<noteq> CHR ''-''"
proof
  assume h: "hd (dec_nat n) = CHR ''-''"
  from dec_nat_nonempty [of n] have "hd (dec_nat n) \<in> set (dec_nat n)" by simp
  then have "is_digit (hd (dec_nat n))" by (rule dec_nat_is_digit)
  with h not_digit(2) show False by simp
qed

lemma fmt_d_inj:
  assumes "fmt_d a = fmt_d b"
  shows "a = b"
proof -
  have neg: "fmt_d x \<noteq> fmt_d y" if "x < 0" "\<not> y < 0" for x y
  proof
    assume "fmt_d x = fmt_d y"
    with that have "CHR ''-'' # dec_nat (nat (- x)) = dec_nat (nat y)"
      by (simp add: fmt_d_def)
    then have "hd (dec_nat (nat y)) = CHR ''-''" by (metis list.sel(1))
    with hd_dec_nat show False by blast
  qed
  consider "a < 0" "b < 0" | "a < 0" "\<not> b < 0" | "\<not> a < 0" "b < 0" | "\<not> a < 0" "\<not> b < 0"
    by blast
  then show ?thesis
  proof cases
    case 1
    with assms have "dec_nat (nat (- a)) = dec_nat (nat (- b))" by (simp add: fmt_d_def)
    from dec_nat_inj [OF this] 1 show ?thesis by simp
  next
    case 2
    from neg [OF 2] assms show ?thesis by blast
  next
    case 3
    from neg [OF 3(2,1)] assms show ?thesis by simp
  next
    case 4
    with assms have "dec_nat (nat a) = dec_nat (nat b)" by (simp add: fmt_d_def)
    from dec_nat_inj [OF this] 4 show ?thesis by simp
  qed
qed

lemma fmt_02d_two:
  assumes "0 \<le> x" and "x < 100"
  shows "length (fmt_02d x) = 2" and "dec_value (fmt_02d x) = x"
proof -
  have f: "fmt_d x = dec_nat (nat x)" using assms by (simp add: fmt_d_def)
  have v: "dec_value (fmt_d x) = x"
    using assms dec_value_dec_nat [of "nat x"] by (simp add: f)
  have len: "length (fmt_d x) = (if x < 10 then 1 else 2)"
  proof (cases "x < 10")
    case True
    with assms have "nat x < 10" by simp
    from dec_nat_small [OF this] True show ?thesis by (simp add: f)
  next
    case False
    with assms have a: "\<not> nat x < 10" and b: "nat x div 10 < 10" by auto
    have "length (dec_nat (nat x)) = 2"
      by (simp add: dec_nat_big [OF a] dec_nat_small [OF b])
    with False show ?thesis by (simp add: f)
  qed
  show "length (fmt_02d x) = 2" using len by (simp add: fmt_02d_def Let_def)
  have "dec_value (CHR ''0'' # fmt_d x) = dec_value (fmt_d x)"
    by (simp add: dec_value_def digit_val_def)
  with v show "dec_value (fmt_02d x) = x"
    by (simp add: fmt_02d_def Let_def)
qed

lemma fmt_02d_inj:
  assumes "0 \<le> x" "x < 100" "0 \<le> y" "y < 100" "fmt_02d x = fmt_02d y"
  shows "x = y"
proof -
  have "x = dec_value (fmt_02d x)" using assms(1,2) by (simp only: fmt_02d_two(2))
  also have "\<dots> = dec_value (fmt_02d y)" by (simp only: assms(5))
  also have "\<dots> = y" using assms(3,4) by (simp only: fmt_02d_two(2))
  finally show ?thesis .
qed

lemma takeWhile_until_space:
  assumes "CHR '' '' \<notin> set xs"
  shows "takeWhile (\<lambda>c. c \<noteq> CHR '' '') (xs @ (CHR '' '' # rest)) = xs"
  using assms by (induction xs) auto

lemma space_in_set: "CHR '' '' \<in> set (xs @ (CHR '' '' # rest))"
  by simp

text \<open>The text of a \<open>timedelta\<close> determines it.\<close>

lemma str_timedelta_inj:
  assumes a: "0 \<le> td_seconds a" "td_seconds a < 86400"
    and b: "0 \<le> td_seconds b" "td_seconds b < 86400"
    and eq: "str_timedelta a = str_timedelta b"
  shows "td_days a = td_days b \<and> td_seconds a = td_seconds b"
proof -
  define pre where "pre d = (if d \<noteq> 0
      then fmt_d d @ '' day'' @ (if \<bar>d\<bar> \<noteq> 1 then ''s'' else []) @ '', '' else [])" for d :: int
  define hh where "hh t = (td_seconds t div 60) div 60" for t :: timedelta
  define mm where "mm t = (td_seconds t div 60) mod 60" for t :: timedelta
  define ss where "ss t = td_seconds t mod 60" for t :: timedelta
  define tail where "tail t = '':'' @ fmt_02d (mm t) @ '':'' @ fmt_02d (ss t)" for t :: timedelta
  have str: "str_timedelta t = (pre (td_days t) @ fmt_d (hh t)) @ tail t" for t
    by (simp add: str_timedelta_def Let_def pre_def hh_def mm_def ss_def tail_def)
  have rng: "0 \<le> mm t \<and> mm t < 100 \<and> 0 \<le> ss t \<and> ss t < 100" for t
  proof -
    have "0 \<le> mm t" "mm t < 60" "0 \<le> ss t" "ss t < 60"
      by (simp_all add: mm_def ss_def)
    then show ?thesis by simp
  qed
  have ltl: "length (tail t) = 6" for t
    using rng [of t] by (simp add: tail_def fmt_02d_two(1))
  have eq': "(pre (td_days a) @ fmt_d (hh a)) @ tail a
      = (pre (td_days b) @ fmt_d (hh b)) @ tail b"
    using eq by (simp only: str)
  have len: "length (tail a) = length (tail b)"
    by (simp only: ltl)
  from append_eq_append_conv [OF disjI2 [OF len]] eq'
  have core: "pre (td_days a) @ fmt_d (hh a) = pre (td_days b) @ fmt_d (hh b)"
    and tls: "tail a = tail b"
    by blast+
  from tls have eq2: "fmt_02d (mm a) @ ('':'' @ fmt_02d (ss a))
      = fmt_02d (mm b) @ ('':'' @ fmt_02d (ss b))"
    unfolding tail_def by (simp only: same_append_eq)
  have len2: "length (fmt_02d (mm a)) = length (fmt_02d (mm b))"
    using rng [of a] rng [of b] by (simp only: fmt_02d_two(1))
  from append_eq_append_conv [OF disjI1 [OF len2]] eq2
  have f1: "fmt_02d (mm a) = fmt_02d (mm b)"
    and f2: "'':'' @ fmt_02d (ss a) = '':'' @ fmt_02d (ss b)"
    by blast+
  from f2 have f3: "fmt_02d (ss a) = fmt_02d (ss b)"
    by (simp only: same_append_eq)
  have m: "mm a = mm b"
    using rng [of a] rng [of b] f1 by (intro fmt_02d_inj) simp_all
  have s: "ss a = ss b"
    using rng [of a] rng [of b] f3 by (intro fmt_02d_inj) simp_all
  have nosp: "CHR '' '' \<notin> set (fmt_d n)" for n
    by (rule fmt_d_no_space)
  have pre: "pre d @ r
      = fmt_d d @ (CHR '' '' # (''day'' @ (if \<bar>d\<bar> \<noteq> 1 then ''s'' else []) @ '', '' @ r))"
    if "d \<noteq> 0" for d r
    using that by (simp add: pre_def)
  have tw: "takeWhile (\<lambda>c. c \<noteq> CHR '' '') (pre d @ r) = fmt_d d" if "d \<noteq> 0" for d r
    unfolding pre [OF that] by (rule takeWhile_until_space) (rule nosp)
  have sp: "CHR '' '' \<in> set (pre d @ r)" if "d \<noteq> 0" for d r
    unfolding pre [OF that] by (rule space_in_set)
  have days: "td_days a = td_days b"
  proof -
    consider "td_days a = 0" "td_days b = 0" | "td_days a = 0" "td_days b \<noteq> 0"
      | "td_days a \<noteq> 0" "td_days b = 0" | "td_days a \<noteq> 0" "td_days b \<noteq> 0"
      by blast
    then show ?thesis
    proof cases
      case 1
      then show ?thesis by simp
    next
      case 2
      from core 2(1) have "fmt_d (hh a) = pre (td_days b) @ fmt_d (hh b)"
        by (simp add: pre_def)
      with sp [OF 2(2), of "fmt_d (hh b)"] nosp [of "hh a"] show ?thesis by simp
    next
      case 3
      from core 3(2) have "pre (td_days a) @ fmt_d (hh a) = fmt_d (hh b)"
        by (simp add: pre_def)
      with sp [OF 3(1), of "fmt_d (hh a)"] nosp [of "hh b"] show ?thesis by simp
    next
      case 4
      from core have "takeWhile (\<lambda>c. c \<noteq> CHR '' '') (pre (td_days a) @ fmt_d (hh a))
          = takeWhile (\<lambda>c. c \<noteq> CHR '' '') (pre (td_days b) @ fmt_d (hh b))"
        by (rule arg_cong)
      then have "fmt_d (td_days a) = fmt_d (td_days b)"
        by (simp only: tw [OF 4(1)] tw [OF 4(2)])
      then show ?thesis by (rule fmt_d_inj)
    qed
  qed
  from core have "fmt_d (hh a) = fmt_d (hh b)" by (simp only: days same_append_eq)
  then have h: "hh a = hh b" by (rule fmt_d_inj)
  have sec: "td_seconds t = 3600 * hh t + 60 * mm t + ss t" for t
  proof -
    have "td_seconds t = 60 * (td_seconds t div 60) + td_seconds t mod 60"
      by simp
    moreover have "td_seconds t div 60 = 60 * hh t + mm t"
      by (simp add: hh_def mm_def)
    ultimately show ?thesis unfolding ss_def by linarith
  qed
  from h m s have "td_seconds a = td_seconds b" by (simp only: sec)
  with days show ?thesis by simp
qed

lemma str_timedelta_of_seconds_inj:
  assumes "str_timedelta (td_of_seconds x) = str_timedelta (td_of_seconds y)"
  shows "x = y"
proof -
  have "td_days (td_of_seconds x) = td_days (td_of_seconds y)
      \<and> td_seconds (td_of_seconds x) = td_seconds (td_of_seconds y)"
    by (rule str_timedelta_inj [OF _ _ _ _ assms]) (simp_all add: td_of_seconds_def)
  then have "total_seconds (td_of_seconds x) = total_seconds (td_of_seconds y)"
    by (simp add: total_seconds_def)
  then show ?thesis by (simp only: total_seconds_td_of_seconds)
qed

subsection \<open>The scores\<close>













subsection \<open>The elapsed time along the output\<close>

lemma elapsed_seconds_same_period:
  assumes "60 * m2 + s2 \<le> 60 * m1 + s1"
  shows "elapsed_seconds s1 m1 q lg \<le> elapsed_seconds s2 m2 q lg"
  using assms by (simp add: elapsed_seconds_def league_time_def)

lemma elapsed_seconds_next_period:
  assumes "0 \<le> 60 * m1 + s1" and "60 * m2 + s2 \<le> 60 * period_minutes lg (q + 1)"
  shows "elapsed_seconds s1 m1 q lg \<le> elapsed_seconds s2 m2 (q + 1) lg"
proof (cases "lg = ''nba''")
  case True
  then have lt: "league_time lg = (4, 48, 12)" by (simp add: league_time_def)
  consider "q + 1 < 4" | "q + 1 = 4" | "4 < q + 1" by linarith
  then show ?thesis
    using assms by cases (simp_all add: elapsed_seconds_def period_minutes_def lt)
next
  case False
  then have lt: "league_time lg = (2, 40, 20)" by (simp add: league_time_def)
  consider "q + 1 < 2" | "q + 1 = 2" | "2 < q + 1" by linarith
  then show ?thesis
    using assms by cases (simp_all add: elapsed_seconds_def period_minutes_def lt)
qed

lemma play_elapsed_eq:
  assumes "play_clock p = Some (q, m, s)" and "calc_overall_time s m q lg = Inr ot"
  shows "play_elapsed lg p = Some (elapsed_seconds s m q lg)"
    and "ot = str_timedelta (td_of_seconds (elapsed_seconds s m q lg))"
  using calc_overall_time_Inr [OF assms(2)] assms(1)
  by (simp_all add: play_elapsed_def total_seconds_td_of_seconds)

text \<open>
  What the loop keeps true of its list of plays: each play holds its period, its clock
  and the text of the elapsed time computed from the two; from a play to the next the
  period stays or grows by one; the last play is in the period of the engine.
\<close>

lemma adjust_loop_plays:
  assumes "adjust_loop g lg st rows = Inr st'" and "game st = []"
  shows "(\<forall>p\<in>set (game st'). \<exists>q m s. play_clock p = Some (q, m, s)
             \<and> play_elapsed lg p = Some (elapsed_seconds s m q lg)
             \<and> p ''overall_time''
                 = Some (PStr (str_timedelta (td_of_seconds (elapsed_seconds s m q lg)))))
       \<and> successively (\<lambda>p1 p2. \<exists>q1 m1 s1 q2 m2 s2. play_clock p1 = Some (q1, m1, s1)
             \<and> play_clock p2 = Some (q2, m2, s2) \<and> (q2 = q1 \<or> q2 = q1 + 1)) (game st')"
proof -
  let ?G = "\<lambda>p. \<exists>q m s. play_clock p = Some (q, m, s)
             \<and> play_elapsed lg p = Some (elapsed_seconds s m q lg)
             \<and> p ''overall_time''
                 = Some (PStr (str_timedelta (td_of_seconds (elapsed_seconds s m q lg))))"
  let ?S = "\<lambda>p1 p2. \<exists>q1 m1 s1 q2 m2 s2. play_clock p1 = Some (q1, m1, s1)
             \<and> play_clock p2 = Some (q2, m2, s2) \<and> (q2 = q1 \<or> q2 = q1 + 1)"
  let ?I = "\<lambda>s. (\<forall>p\<in>set (game s). ?G p) \<and> successively ?S (game s)
        \<and> (game s \<noteq> [] \<longrightarrow> (\<exists>m0 s0. play_clock (last (game s)) = Some (quarter s, m0, s0)))"
  have "?I st'"
  proof (rule adjust_loop_invariant [OF assms(1), where I = ?I])
    show "?I st" using assms(2) by simp
  next
    fix s r s'
    assume I: "?I s" and lb: "loop_body g lg s r = Inr s'"
    show "?I s'"
    proof (cases "time_stamp r")
      case None
      with lb I show ?thesis by (simp add: loop_body_skip)
    next
      case (Some time)
      from loop_body_Inr [OF lb Some] obtain np m s0 ot a h where
        pc: "parse_clock time = Inr (m, s0)"
        and nq: "next_quarter m (quarter s) (end_of_quarter s) = (quarter s', end_of_quarter s')"
        and ot: "calc_overall_time s0 m (quarter s') lg = Inr ot"
        and gm: "game s' = game s @
             [(np ++ [''overall_time'' \<mapsto> PStr ot, ''quarter_time'' \<mapsto> PStr time,
                      ''quarter'' \<mapsto> PInt (quarter s')])
               (''away_score'' \<mapsto> a, ''home_score'' \<mapsto> h)]"
        by blast
      define p where "p = (np ++ [''overall_time'' \<mapsto> PStr ot, ''quarter_time'' \<mapsto> PStr time,
                      ''quarter'' \<mapsto> PInt (quarter s')])
               (''away_score'' \<mapsto> a, ''home_score'' \<mapsto> h)"
      have gp: "game s' = game s @ [p]" using gm by (simp only: p_def)
      have clk: "play_clock p = Some (quarter s', m, s0)"
        using emitted_entries(1,2) [OF p_def] pc by (simp add: play_clock_def)
      have G: "?G p"
        using clk play_elapsed_eq [OF clk ot] emitted_entries(3) [OF p_def] by simp
      have q: "quarter s' = quarter s \<or> quarter s' = quarter s + 1"
        using nq by (auto simp: next_quarter_def split: if_splits)
      have S: "successively ?S (game s @ [p])"
      proof (cases "game s = []")
        case True
        then show ?thesis by simp
      next
        case False
        with I obtain m1 s1 where "play_clock (last (game s)) = Some (quarter s, m1, s1)"
          by blast
        with clk q have "?S (last (game s)) p" by blast
        with I False show ?thesis by (simp add: successively_append_iff)
      qed
      from I G S clk show ?thesis unfolding gp by auto
    qed
  qed
  then show ?thesis by blast
qed

text \<open>The play that a turn of the loop emits, with its clock and its elapsed time.\<close>

lemma loop_body_emits:
  assumes "loop_body g lg st r = Inr st'" and "time_stamp r = Some t"
  shows "\<exists>m s pl. parse_clock t = Inr (m, s)
         \<and> next_quarter m (quarter st) (end_of_quarter st) = (quarter st', end_of_quarter st')
         \<and> game st' = game st @ [pl]
         \<and> play_clock pl = Some (quarter st', m, s)
         \<and> play_elapsed lg pl = Some (elapsed_seconds s m (quarter st') lg)"
proof -
  from loop_body_Inr [OF assms] obtain np m s ot a h where
    pc: "parse_clock t = Inr (m, s)"
    and nq: "next_quarter m (quarter st) (end_of_quarter st) = (quarter st', end_of_quarter st')"
    and ot: "calc_overall_time s m (quarter st') lg = Inr ot"
    and gm: "game st' = game st @
             [(np ++ [''overall_time'' \<mapsto> PStr ot, ''quarter_time'' \<mapsto> PStr t,
                      ''quarter'' \<mapsto> PInt (quarter st')])
               (''away_score'' \<mapsto> a, ''home_score'' \<mapsto> h)]"
    by blast
  define pl where "pl = (np ++ [''overall_time'' \<mapsto> PStr ot, ''quarter_time'' \<mapsto> PStr t,
                      ''quarter'' \<mapsto> PInt (quarter st')])
               (''away_score'' \<mapsto> a, ''home_score'' \<mapsto> h)"
  have gp: "game st' = game st @ [pl]" using gm by (simp only: pl_def)
  have clk: "play_clock pl = Some (quarter st', m, s)"
    using emitted_entries(1,2) [OF pl_def] pc by (simp add: play_clock_def)
  from pc nq gp clk play_elapsed_eq(1) [OF clk ot] show ?thesis by blast
qed

text \<open>
  Over rows whose clocks run down, the engine stays in step with the clocks: it advances
  its period exactly where a new period starts, and the elapsed times do not decrease.
\<close>

lemma adjust_loop_in_step:
  assumes "adjust_loop g lg st rows = Inr st'"
    and "clocks_normal lg p prev rows"
    and "in_step lg st p prev"
    and "successively (elapsed_le lg) (game st)"
  shows "successively (elapsed_le lg) (game st')"
  using assms
proof (induction rows arbitrary: st p prev)
  case Nil
  then show ?case by simp
next
  case (Cons r rows)
  from Cons.prems(1) obtain s1 where lb: "loop_body g lg st r = Inr s1"
    and rest: "adjust_loop g lg s1 rows = Inr st'"
    by (auto simp: ebind_eq_Inr)
  show ?case
  proof (cases "time_stamp r")
    case None
    with lb have "s1 = st" by (simp add: loop_body_skip)
    moreover from Cons.prems(2) None have "clocks_normal lg p prev rows" by simp
    ultimately show ?thesis
      using Cons.IH [OF _ _ Cons.prems(3,4)] rest by blast
  next
    case (Some t)
    from loop_body_emits [OF lb Some] obtain m s pl where
      pc: "parse_clock t = Inr (m, s)"
      and nq: "next_quarter m (quarter st) (end_of_quarter st) = (quarter s1, end_of_quarter s1)"
      and gp: "game s1 = game st @ [pl]"
      and el: "play_elapsed lg pl = Some (elapsed_seconds s m (quarter s1) lg)"
      by blast
    from Cons.prems(2) Some pc have valid: "0 \<le> m" "0 \<le> s" "s < 60"
      and cn: "case prev of
                 None \<Rightarrow> clocks_normal lg p (Some (m, s)) rows
               | Some (m1, s1) \<Rightarrow>
                   if 60 * m + s \<le> 60 * m1 + s1
                   then clocks_normal lg p (Some (m, s)) rows
                   else m1 = 0 \<and> 1 < m \<and> 60 * m + s \<le> 60 * period_minutes lg (p + 1)
                        \<and> clocks_normal lg (p + 1) (Some (m, s)) rows"
      by simp_all
    from Cons.prems(3) have qp: "quarter st = p" by (simp add: in_step_def)
    have last: "last (game s1) = pl" "game s1 \<noteq> []" using gp by simp_all
    show ?thesis
    proof (cases prev)
      case None
      with Cons.prems(3) have e: "game st = []" "\<not> end_of_quarter st"
        by (simp_all add: in_step_def)
      from nq qp e(2) have q1: "quarter s1 = p" and f1: "end_of_quarter s1 \<longleftrightarrow> m = 0"
        by (auto simp: next_quarter_def split: if_splits)
      have step: "in_step lg s1 p (Some (m, s))"
        using q1 f1 el valid last by (simp add: in_step_def)
      have succ: "successively (elapsed_le lg) (game s1)"
        using gp e(1) by simp
      from cn None have "clocks_normal lg p (Some (m, s)) rows" by simp
      from Cons.IH [OF rest this step succ] show ?thesis .
    next
      case (Some c)
      obtain m1 s0 where c: "c = (m1, s0)" by (cases c)
      from Cons.prems(3) Some c have ne: "game st \<noteq> []"
        and pe: "play_elapsed lg (last (game st)) = Some (elapsed_seconds s0 m1 p lg)"
        and v1: "0 \<le> m1" "0 \<le> s0" "s0 < 60"
        and fl: "end_of_quarter st \<longleftrightarrow> m1 = 0"
        by (simp_all add: in_step_def)
      show ?thesis
      proof (cases "60 * m + s \<le> 60 * m1 + s0")
        case True
        with cn Some c have cn': "clocks_normal lg p (Some (m, s)) rows" by simp
        have small: "m = 0" if "m1 = 0"
          using that True valid v1 by linarith
        from nq qp fl small have q1: "quarter s1 = p" and f1: "end_of_quarter s1 \<longleftrightarrow> m = 0"
          by (auto simp: next_quarter_def split: if_splits)
        have step: "in_step lg s1 p (Some (m, s))"
          using q1 f1 el valid last by (simp add: in_step_def)
        have "elapsed_le lg (last (game st)) pl"
          using pe el q1 elapsed_seconds_same_period [OF True, of p lg]
          by (simp add: elapsed_le_def)
        then have succ: "successively (elapsed_le lg) (game s1)"
          using Cons.prems(4) ne by (simp add: gp successively_append_iff)
        from Cons.IH [OF rest cn' step succ] show ?thesis .
      next
        case False
        with cn Some c have j: "m1 = 0" "1 < m" "60 * m + s \<le> 60 * period_minutes lg (p + 1)"
          and cn': "clocks_normal lg (p + 1) (Some (m, s)) rows"
          by simp_all
        from nq qp fl j(1,2) have q1: "quarter s1 = p + 1" and f1: "\<not> end_of_quarter s1"
          by (auto simp: next_quarter_def split: if_splits)
        have step: "in_step lg s1 (p + 1) (Some (m, s))"
          using q1 f1 el valid last j(2) by (simp add: in_step_def)
        have nonneg: "0 \<le> 60 * m1 + s0" using v1 by simp
        have "elapsed_le lg (last (game st)) pl"
          using pe el q1 elapsed_seconds_next_period [OF nonneg j(3)]
          by (simp add: elapsed_le_def)
        then have succ: "successively (elapsed_le lg) (game s1)"
          using Cons.prems(4) ne by (simp add: gp successively_append_iff)
        from Cons.IH [OF rest cn' step succ] show ?thesis .
      qed
    qed
  qed
qed

text \<open>
  C7, as the code has it. When \<open>adjust_game\<close> returns on rows whose clocks run down
  (\<open>clocks_run_down\<close>, a condition on the rows alone), the elapsed times are
  non-decreasing from each play to the next; the elapsed time of a play is the duration
  whose text the play stores under \<open>overall_time\<close>, and the only one with that text.
\<close>

theorem elapsed_nondecreasing_when_clocks_run_down:
  assumes "adjust_game g rows lg = Inr gm" and "clocks_run_down lg rows"
  shows "elapsed_nondecreasing lg gm
       \<and> (\<forall>p\<in>set gm. \<exists>n. play_elapsed lg p = Some n
             \<and> p ''overall_time'' = Some (PStr (str_timedelta (td_of_seconds n))))
       \<and> (\<forall>p\<in>set gm. \<forall>n.
             p ''overall_time'' = Some (PStr (str_timedelta (td_of_seconds n))) \<longrightarrow>
             play_elapsed lg p = Some n)"
proof -
  let ?st0 = "\<lparr>game = [], quarter = 1, end_of_quarter = False\<rparr>"
  from assms(1) obtain st' where
    st': "adjust_loop g lg ?st0 rows = Inr st'"
    and g: "gm = game st'"
    by (auto simp: adjust_game_def ebind_eq_Inr)
  have cn: "clocks_normal lg 1 None rows"
    using assms(2) by (simp only: clocks_run_down_def)
  have "successively (elapsed_le lg) (game st')"
    by (rule adjust_loop_in_step [OF st' cn]) (simp_all add: in_step_def)
  then have mono: "elapsed_nondecreasing lg gm"
    by (simp only: elapsed_nondecreasing_def g)
  from adjust_loop_plays [OF st'] g
  have E: "\<forall>p\<in>set gm. \<exists>n. play_elapsed lg p = Some n
             \<and> p ''overall_time'' = Some (PStr (str_timedelta (td_of_seconds n)))"
    by auto
  have "play_elapsed lg p = Some n"
    if "p \<in> set gm" and "p ''overall_time'' = Some (PStr (str_timedelta (td_of_seconds n)))"
    for p n
  proof -
    from E that(1) obtain n' where n': "play_elapsed lg p = Some n'"
      "p ''overall_time'' = Some (PStr (str_timedelta (td_of_seconds n')))"
      by blast
    from n'(2) that(2) have "str_timedelta (td_of_seconds n') = str_timedelta (td_of_seconds n)"
      by simp
    from str_timedelta_of_seconds_inj [OF this] n'(1) show ?thesis by simp
  qed
  with mono E show ?thesis by blast
qed

text \<open>
  The claim C7 as stated fails: the rows with clocks \<open>5:00\<close> and then \<open>10:00\<close> are
  normalised without error, both in period \<open>1\<close>, with the elapsed times \<open>0:07:00\<close>
  (\<open>420\<close> seconds) and then \<open>0:02:00\<close> (\<open>120\<close> seconds).
\<close>

theorem elapsed_decreases_counterexample:
  "\<not> isl (adjust_game \<lparr>away_team = ''BOS'', home_team = ''LAL''\<rparr>
        [\<lparr>time_stamp = Some ''5:00'', logo = Some ''bos'', game_details = Some ''misses jumper'',
           no_change = True, combined_score = None\<rparr>,
         \<lparr>time_stamp = Some ''10:00'', logo = Some ''lal'', game_details = Some ''defensive rebound'',
           no_change = True, combined_score = None\<rparr>] ''nba'')
   \<and> map_sum id (column ''quarter'')
       (adjust_game \<lparr>away_team = ''BOS'', home_team = ''LAL''\<rparr>
        [\<lparr>time_stamp = Some ''5:00'', logo = Some ''bos'', game_details = Some ''misses jumper'',
           no_change = True, combined_score = None\<rparr>,
         \<lparr>time_stamp = Some ''10:00'', logo = Some ''lal'', game_details = Some ''defensive rebound'',
           no_change = True, combined_score = None\<rparr>] ''nba'')
       = Inr [Some (PInt 1), Some (PInt 1)]
   \<and> map_sum id (column ''overall_time'')
       (adjust_game \<lparr>away_team = ''BOS'', home_team = ''LAL''\<rparr>
        [\<lparr>time_stamp = Some ''5:00'', logo = Some ''bos'', game_details = Some ''misses jumper'',
           no_change = True, combined_score = None\<rparr>,
         \<lparr>time_stamp = Some ''10:00'', logo = Some ''lal'', game_details = Some ''defensive rebound'',
           no_change = True, combined_score = None\<rparr>] ''nba'')
       = Inr [Some (PStr ''0:07:00''), Some (PStr ''0:02:00'')]
   \<and> map_sum id (map (play_elapsed ''nba''))
       (adjust_game \<lparr>away_team = ''BOS'', home_team = ''LAL''\<rparr>
        [\<lparr>time_stamp = Some ''5:00'', logo = Some ''bos'', game_details = Some ''misses jumper'',
           no_change = True, combined_score = None\<rparr>,
         \<lparr>time_stamp = Some ''10:00'', logo = Some ''lal'', game_details = Some ''defensive rebound'',
           no_change = True, combined_score = None\<rparr>] ''nba'')
       = Inr [Some 420, Some 120]
   \<and> map_sum id (elapsed_nondecreasing ''nba'')
       (adjust_game \<lparr>away_team = ''BOS'', home_team = ''LAL''\<rparr>
        [\<lparr>time_stamp = Some ''5:00'', logo = Some ''bos'', game_details = Some ''misses jumper'',
           no_change = True, combined_score = None\<rparr>,
         \<lparr>time_stamp = Some ''10:00'', logo = Some ''lal'', game_details = Some ''defensive rebound'',
           no_change = True, combined_score = None\<rparr>] ''nba'')
       = Inr False"
  by code_simp

theorem elapsed_nondecreasing_when_clocks_run_down_witness:
  "clocks_run_down ''nba''
     [\<lparr>time_stamp = Some ''12:00'', logo = Some ''bos'', game_details = Some ''Jump ball'',
        no_change = True, combined_score = None\<rparr>,
      \<lparr>time_stamp = None, logo = None, game_details = None, no_change = False,
        combined_score = None\<rparr>,
      \<lparr>time_stamp = Some ''0:00'', logo = Some ''lal'', game_details = Some ''End of the 1st Quarter'',
        no_change = True, combined_score = None\<rparr>,
      \<lparr>time_stamp = Some ''11:58'', logo = Some ''bos'', game_details = Some ''misses jumper'',
        no_change = True, combined_score = None\<rparr>]
   \<and> (\<exists>gm. adjust_game \<lparr>away_team = ''BOS'', home_team = ''LAL''\<rparr>
           [\<lparr>time_stamp = Some ''12:00'', logo = Some ''bos'', game_details = Some ''Jump ball'',
              no_change = True, combined_score = None\<rparr>,
            \<lparr>time_stamp = None, logo = None, game_details = None, no_change = False,
              combined_score = None\<rparr>,
            \<lparr>time_stamp = Some ''0:00'', logo = Some ''lal'',
              game_details = Some ''End of the 1st Quarter'', no_change = True,
              combined_score = None\<rparr>,
            \<lparr>time_stamp = Some ''11:58'', logo = Some ''bos'', game_details = Some ''misses jumper'',
              no_change = True, combined_score = None\<rparr>] ''nba'' = Inr gm
        \<and> elapsed_nondecreasing ''nba'' gm)
   \<and> map_sum id (map (play_elapsed ''nba''))
        (adjust_game \<lparr>away_team = ''BOS'', home_team = ''LAL''\<rparr>
           [\<lparr>time_stamp = Some ''12:00'', logo = Some ''bos'', game_details = Some ''Jump ball'',
              no_change = True, combined_score = None\<rparr>,
            \<lparr>time_stamp = None, logo = None, game_details = None, no_change = False,
              combined_score = None\<rparr>,
            \<lparr>time_stamp = Some ''0:00'', logo = Some ''lal'',
              game_details = Some ''End of the 1st Quarter'', no_change = True,
              combined_score = None\<rparr>,
            \<lparr>time_stamp = Some ''11:58'', logo = Some ''bos'', game_details = Some ''misses jumper'',
              no_change = True, combined_score = None\<rparr>] ''nba'')
       = Inr [Some 0, Some 720, Some 722]"
proof -
  let ?rows = "[\<lparr>time_stamp = Some ''12:00'', logo = Some ''bos'', game_details = Some ''Jump ball'',
              no_change = True, combined_score = None\<rparr>,
            \<lparr>time_stamp = None, logo = None, game_details = None, no_change = False,
              combined_score = None\<rparr>,
            \<lparr>time_stamp = Some ''0:00'', logo = Some ''lal'',
              game_details = Some ''End of the 1st Quarter'', no_change = True,
              combined_score = None\<rparr>,
            \<lparr>time_stamp = Some ''11:58'', logo = Some ''bos'', game_details = Some ''misses jumper'',
              no_change = True, combined_score = None\<rparr>]"
  let ?run = "adjust_game \<lparr>away_team = ''BOS'', home_team = ''LAL''\<rparr> ?rows ''nba''"
  have rd: "clocks_run_down ''nba'' ?rows" by code_simp
  have "isl ?run = False" by code_simp
  then obtain gm where gm: "?run = Inr gm" by (cases ?run) auto
  have v: "map_sum id (map (play_elapsed ''nba'')) ?run = Inr [Some 0, Some 720, Some 722]"
    by code_simp
  from elapsed_nondecreasing_when_clocks_run_down [OF gm rd]
  have "elapsed_nondecreasing ''nba'' gm" by blast
  with gm rd v show ?thesis by blast
qed


end
